theory Spec2Isabelle
  imports Main
begin

section \<open>Bytes, strings and the Go runtime\<close>

text \<open>
  A Go \<^verbatim>\<open>[]byte\<close> and a Go \<^verbatim>\<open>string\<close> are both sequences of 8-bit bytes; both are
  modelled as lists of \<^typ>\<open>char\<close> (HOL characters are 8-bit), so the conversions
  \<^verbatim>\<open>string(bs)\<close> and \<^verbatim>\<open>[]byte(s)\<close> are the identity. Go's \<^verbatim>\<open>int\<close> is modelled
  as \<^typ>\<open>int\<close>: every integer the decoder computes comes from at most five
  characters, far from the 64-bit range.
\<close>

type_synonym byte = char
type_synonym bytes = "char list"

text \<open>
  A run-time panic of the Go runtime. An index expression \<^verbatim>\<open>s[i]\<close> outside
  \<^verbatim>\<open>0 \<le> i < len(s)\<close> and a slice expression outside its bounds abort the goroutine;
  the model returns the panic as a value.
\<close>

datatype panic = IndexOutOfRange | SliceBoundsOutOfRange

text \<open>The constants of marc.go.\<close>

definition rt :: byte where
  "rt = CHR 0x1D"

definition st :: byte where
  "st = CHR 0x1F"

text \<open>\<^verbatim>\<open>s[lo:hi]\<close> for bounds already known to be in range.\<close>

definition slice :: "'a list \<Rightarrow> nat \<Rightarrow> nat \<Rightarrow> 'a list" where
  "slice xs lo hi = take (hi - lo) (drop lo xs)"

text \<open>
  The conversion \<^verbatim>\<open>string(b)\<close> of one byte: Go converts the integer to the UTF-8
  encoding of the code point, one byte below 0x80 and two bytes from 0x80 on.
\<close>

definition string_of_byte :: "byte \<Rightarrow> string" where
  "string_of_byte b =
     (let n = (of_char b :: nat) in
      if n < 128 then [b]
      else [char_of (192 + n div 64), char_of (128 + n mod 64)])"

subsection \<open>strconv.Atoi\<close>

text \<open>
  \<^verbatim>\<open>strconv.Atoi\<close> (Go standard library): an optional sign, then one or more decimal
  digits and nothing else. \<open>None\<close> stands for a non-nil error. The result fits Go's
  \<^verbatim>\<open>int\<close> for every string of fewer than 19 characters; longer strings whose value
  leaves the 64-bit range are a range error.
\<close>

definition is_digit :: "char \<Rightarrow> bool" where
  "is_digit c = (48 \<le> (of_char c :: nat) \<and> (of_char c :: nat) \<le> 57)"

fun digits_value :: "nat \<Rightarrow> string \<Rightarrow> nat option" where
  "digits_value n [] = Some n"
| "digits_value n (ch # s) =
     (if is_digit ch then digits_value (n * 10 + (of_char ch - 48)) s else None)"

definition Atoi :: "string \<Rightarrow> int option" where
  "Atoi s0 =
     (case s0 of
        [] \<Rightarrow> None
      | c # cs \<Rightarrow>
          (let s = (if c = CHR ''-'' \<or> c = CHR ''+'' then cs else s0) in
           if s = [] then None
           else (case digits_value 0 s of
                   None \<Rightarrow> None
                 | Some n \<Rightarrow>
                     (let v = (if c = CHR ''-'' then - int n else int n) in
                      if - (2 ^ 63) \<le> v \<and> v < 2 ^ 63 then Some v else None))))"

subsection \<open>bytes.Split, bytes.IndexByte, strings.Index, strings.HasPrefix\<close>

text \<open>
  \<^verbatim>\<open>bytes.Split(s, []byte{sep})\<close> (Go standard library) for a one-byte separator:
  the segments between the separators, \<open>n + 1\<close> of them for \<open>n\<close> separators, so the
  empty input gives one empty segment.
\<close>

fun Split :: "bytes \<Rightarrow> byte \<Rightarrow> bytes list" where
  "Split [] sep = [[]]"
| "Split (b # bs) sep =
     (if b = sep then [] # Split bs sep
      else (case Split bs sep of
              [] \<Rightarrow> [[b]]
            | seg # segs \<Rightarrow> (b # seg) # segs))"

text \<open>
  \<^verbatim>\<open>bytes.IndexByte(data, c)\<close>, and \<^verbatim>\<open>strings.Index(s, "|")\<close> for a one-byte
  needle: the index of the first occurrence, or \<open>-1\<close>.
\<close>

fun IndexByte :: "bytes \<Rightarrow> byte \<Rightarrow> int" where
  "IndexByte [] c = -1"
| "IndexByte (b # bs) c =
     (if b = c then 0
      else (let i = IndexByte bs c in if i < 0 then -1 else i + 1))"

definition HasPrefix :: "string \<Rightarrow> string \<Rightarrow> bool" where
  "HasPrefix s prefix = (length prefix \<le> length s \<and> take (length prefix) s = prefix)"

subsection \<open>UTF-8 sequences: strings.Split(s, ""), strings.TrimSpace\<close>

text \<open>
  \<^verbatim>\<open>utf8.DecodeRuneInString\<close> (Go standard library) returns the width of the first
  UTF-8 sequence of a string: 1 for an ASCII byte and for every byte that starts no
  valid encoding, 2 to 4 for a valid multi-byte encoding. \<open>utf8_extra\<close> is that width
  minus one, from the table of first bytes and the accepted ranges of the second byte.
\<close>

definition in_range :: "char \<Rightarrow> nat \<Rightarrow> nat \<Rightarrow> bool" where
  "in_range c lo hi = (lo \<le> of_char c \<and> (of_char c :: nat) \<le> hi)"

definition second_lo :: "char \<Rightarrow> nat" where
  "second_lo p0 = (if p0 = CHR 0xE0 then 0xA0 else if p0 = CHR 0xF0 then 0x90 else 0x80)"

definition second_hi :: "char \<Rightarrow> nat" where
  "second_hi p0 = (if p0 = CHR 0xED then 0x9F else if p0 = CHR 0xF4 then 0x8F else 0xBF)"

fun utf8_extra :: "string \<Rightarrow> nat" where
  "utf8_extra [] = 0"
| "utf8_extra (p0 # rest) =
     (if in_range p0 0xC2 0xDF then
        (case rest of
           b1 # _ \<Rightarrow> if in_range b1 0x80 0xBF then 1 else 0
         | _ \<Rightarrow> 0)
      else if in_range p0 0xE0 0xEF then
        (case rest of
           b1 # b2 # _ \<Rightarrow>
             if in_range b1 (second_lo p0) (second_hi p0) \<and> in_range b2 0x80 0xBF
             then 2 else 0
         | _ \<Rightarrow> 0)
      else if in_range p0 0xF0 0xF4 then
        (case rest of
           b1 # b2 # b3 # _ \<Rightarrow>
             if in_range b1 (second_lo p0) (second_hi p0) \<and> in_range b2 0x80 0xBF
                \<and> in_range b3 0x80 0xBF
             then 3 else 0
         | _ \<Rightarrow> 0)
      else 0)"

text \<open>
  \<^verbatim>\<open>strings.Split(s, "")\<close> splits after each UTF-8 sequence (the library's
  \<^verbatim>\<open>explode\<close>); a byte that starts no valid encoding is a sequence of its own.
\<close>

function strings_explode :: "string \<Rightarrow> string list" where
  "strings_explode [] = []"
| "strings_explode (c # cs) =
     (c # take (utf8_extra (c # cs)) cs) # strings_explode (drop (utf8_extra (c # cs)) cs)"
  by pat_completeness auto
termination
  by (relation "measure length") auto

text \<open>
  \<^verbatim>\<open>unicode.IsSpace\<close> on one UTF-8 sequence: the six ASCII white-space characters,
  U+0085, U+00A0 and the other code points of the Unicode White_Space property.
\<close>

definition IsSpace :: "string \<Rightarrow> bool" where
  "IsSpace chunk =
     (chunk \<in> set
        [[CHR 0x09], [CHR 0x0A], [CHR 0x0B], [CHR 0x0C], [CHR 0x0D], [CHR 0x20],
         [CHR 0xC2, CHR 0x85], [CHR 0xC2, CHR 0xA0],
         [CHR 0xE1, CHR 0x9A, CHR 0x80],
         [CHR 0xE2, CHR 0x80, CHR 0xA8], [CHR 0xE2, CHR 0x80, CHR 0xA9],
         [CHR 0xE2, CHR 0x80, CHR 0xAF], [CHR 0xE2, CHR 0x81, CHR 0x9F],
         [CHR 0xE3, CHR 0x80, CHR 0x80]]
      \<or> (case chunk of
            [a, b, c] \<Rightarrow> a = CHR 0xE2 \<and> b = CHR 0x80 \<and> in_range c 0x80 0x8A
          | _ \<Rightarrow> False))"

text \<open>
  \<^verbatim>\<open>strings.TrimSpace\<close>: the string without its leading and trailing white space,
  as Unicode defines it.
\<close>

definition TrimSpace :: "string \<Rightarrow> string" where
  "TrimSpace s =
     concat (rev (dropWhile IsSpace (rev (dropWhile IsSpace (strings_explode s)))))"

section \<open>The data model of marc.go\<close>

record SubField =
  Code :: string
  Value :: string

record ControlField =
  cTag :: string
  cValue :: string

record DataField =
  Indicator1 :: string
  Indicator2 :: string
  Tag :: string
  SubFields :: "SubField list"

text \<open>
  \<^verbatim>\<open>Record.Fields\<close> is a \<^verbatim>\<open>[]interface{}\<close> that the decoder fills with values of
  the two field types; the type switches of the accessors tell them apart.
\<close>

datatype Field = IsControlField ControlField | IsDataField DataField

record Leader =
  Status :: byte
  Type :: byte
  BibLevel :: byte
  Control :: byte
  EncodingLevel :: byte
  Form :: byte
  Multipart :: byte

record Record =
  Data :: bytes
  Fields :: "Field list"
  Leader :: Leader

text \<open>A Go \<^verbatim>\<open>error\<close>: \<open>None\<close> is \<^verbatim>\<open>nil\<close>, \<open>Some msg\<close> is \<^verbatim>\<open>errors.New(msg)\<close>.\<close>

type_synonym error = "string option"

section \<open>The decoder\<close>

text \<open>
  The loop of \<^verbatim>\<open>makeDataField\<close> over the segments of \<^verbatim>\<open>bytes.Split(data[3:], st)\<close>:
  a non-empty segment appends a subfield (first byte the code, the rest the value), an
  empty one returns the field built so far with an error.
\<close>

fun makeDataField_loop :: "bytes list \<Rightarrow> DataField \<Rightarrow> DataField \<times> error" where
  "makeDataField_loop [] d = (d, None)"
| "makeDataField_loop ([] # sfs) d = (d, Some ''Extraneous field terminator'')"
| "makeDataField_loop ((c # v) # sfs) d =
     makeDataField_loop sfs
       (d\<lparr>SubFields := SubFields d @ [\<lparr>Code = string_of_byte c, Value = v\<rparr>]\<rparr>)"

definition makeDataField :: "string \<Rightarrow> bytes \<Rightarrow> DataField \<times> error" where
  "makeDataField tag data =
     (let d = \<lparr>Indicator1 = [], Indicator2 = [], Tag = tag, SubFields = []\<rparr> in
      if length data > 2 then
        makeDataField_loop (Split (drop 3 data) st)
          (d\<lparr>Indicator1 := string_of_byte (data ! 0),
             Indicator2 := string_of_byte (data ! 1)\<rparr>)
      else (d, Some ''Invalid Indicators detected''))"

text \<open>
  One turn of the directory loop of \<^verbatim>\<open>scanIntoRecord\<close>, for \<^verbatim>\<open>len(dirs) >= 12\<close>:
  \<open>Inl\<close> is a run-time panic, \<open>Inr (Inl msg)\<close> is \<^verbatim>\<open>return rec, errors.New(msg)\<close>
  and \<open>Inr (Inr f)\<close> is the field that the turn appends to \<^verbatim>\<open>rec.Fields\<close>.
  The slice expression \<^verbatim>\<open>data[begin : begin+length-1]\<close> is reached only with
  \<^verbatim>\<open>begin+length-1 < len(data)\<close>; it panics when \<^verbatim>\<open>begin\<close> is negative or exceeds
  the upper bound.
\<close>

definition dirEntry :: "bytes \<Rightarrow> bytes \<Rightarrow> panic + (string + Field)" where
  "dirEntry data dirs =
     (let tag = take 3 dirs in
      case Atoi (slice dirs 3 7) of
        None \<Rightarrow> Inr (Inl ''Could not determine length of field'')
      | Some length' \<Rightarrow>
     (case Atoi (slice dirs 7 12) of
        None \<Rightarrow> Inr (Inl ''Could not determine field start'')
      | Some begin \<Rightarrow>
          if int (length data) \<le> begin + length' - 1
          then Inr (Inl ''Reported field length incorrect'')
          else if begin < 0 \<or> begin + length' - 1 < begin then Inl SliceBoundsOutOfRange
          else
            (let fdata = slice data (nat begin) (nat (begin + length' - 1)) in
             if HasPrefix tag ''00''
             then Inr (Inr (IsControlField \<lparr>cTag = tag, cValue = fdata\<rparr>))
             else (case makeDataField tag fdata of
                     (df, Some err) \<Rightarrow> Inr (Inl err)
                   | (df, None) \<Rightarrow> Inr (Inr (IsDataField df))))))"

text \<open>
  The directory loop \<^verbatim>\<open>for len(dirs) >= 12 { ... dirs = dirs[12:] }\<close> followed by
  \<^verbatim>\<open>return rec, nil\<close>. The result is a panic or the pair the function returns.
\<close>

function scanDirs :: "bytes \<Rightarrow> bytes \<Rightarrow> Record \<Rightarrow> panic + (Record \<times> error)" where
  "scanDirs data dirs rec =
     (if length dirs \<ge> 12 then
        (case dirEntry data dirs of
           Inl p \<Rightarrow> Inl p
         | Inr (Inl msg) \<Rightarrow> Inr (rec, Some msg)
         | Inr (Inr f) \<Rightarrow>
             scanDirs data (drop 12 dirs) (rec\<lparr>Fields := Fields rec @ [f]\<rparr>))
      else Inr (rec, None))"
  by pat_completeness auto
termination
  by (relation "measure (\<lambda>(data, dirs, rec). length dirs)") auto

declare scanDirs.simps [simp del]

text \<open>
  \<^verbatim>\<open>scanIntoRecord\<close>: the copy of the buffer, the leader bytes by position (the
  index expressions \<^verbatim>\<open>bytes[5]\<close> to \<^verbatim>\<open>bytes[19]\<close> panic on a buffer of fewer than
  20 bytes), the base address, the two slice expressions \<^verbatim>\<open>bytes[start:]\<close> and
  \<^verbatim>\<open>bytes[24 : start-1]\<close>, each with its bounds check, and the directory loop.
\<close>

definition scanIntoRecord :: "bytes \<Rightarrow> panic + (Record \<times> error)" where
  "scanIntoRecord bytes =
     (if length bytes < 20 then Inl IndexOutOfRange
      else
        (let rec = \<lparr>Data = bytes, Fields = [],
                    Leader = \<lparr>Status = bytes ! 5, Type = bytes ! 6, BibLevel = bytes ! 7,
                               Control = bytes ! 8, EncodingLevel = bytes ! 17,
                               Form = bytes ! 18, Multipart = bytes ! 19\<rparr>\<rparr> in
         case Atoi (slice bytes 12 17) of
           None \<Rightarrow> Inr (rec, Some ''Could not determine record start'')
         | Some start \<Rightarrow>
             if start < 0 \<or> int (length bytes) < start then Inl SliceBoundsOutOfRange
             else if start - 1 < 24 then Inl SliceBoundsOutOfRange
             else scanDirs (drop (nat start) bytes) (slice bytes 24 (nat (start - 1))) rec))"

section \<open>The accessors\<close>

text \<open>
  \<^verbatim>\<open>Record.ControlField(tag...)\<close>: the outer loop runs over the requested tags, the
  inner loop over \<^verbatim>\<open>r.Fields\<close>; a field that is a control field with the tag is
  appended to \<^verbatim>\<open>fields\<close>.
\<close>

fun ControlField_inner :: "string \<Rightarrow> Field list \<Rightarrow> ControlField list \<Rightarrow> ControlField list" where
  "ControlField_inner t [] fields' = fields'"
| "ControlField_inner t (f # fs) fields' =
     ControlField_inner t fs
       (case f of
          IsControlField field \<Rightarrow> if cTag field = t then fields' @ [field] else fields'
        | IsDataField _ \<Rightarrow> fields')"

fun ControlField_outer :: "string list \<Rightarrow> Field list \<Rightarrow> ControlField list \<Rightarrow> ControlField list" where
  "ControlField_outer [] fs fields' = fields'"
| "ControlField_outer (t # ts) fs fields' =
     ControlField_outer ts fs (ControlField_inner t fs fields')"

definition Record_ControlField :: "Record \<Rightarrow> string list \<Rightarrow> ControlField list" where
  "Record_ControlField r tag = ControlField_outer tag (Fields r) []"

text \<open>\<^verbatim>\<open>Record.DataField(tag...)\<close>, the same two loops for data fields.\<close>

fun DataField_inner :: "string \<Rightarrow> Field list \<Rightarrow> DataField list \<Rightarrow> DataField list" where
  "DataField_inner t [] fields' = fields'"
| "DataField_inner t (f # fs) fields' =
     DataField_inner t fs
       (case f of
          IsDataField field \<Rightarrow> if Tag field = t then fields' @ [field] else fields'
        | IsControlField _ \<Rightarrow> fields')"

fun DataField_outer :: "string list \<Rightarrow> Field list \<Rightarrow> DataField list \<Rightarrow> DataField list" where
  "DataField_outer [] fs fields' = fields'"
| "DataField_outer (t # ts) fs fields' =
     DataField_outer ts fs (DataField_inner t fs fields')"

definition Record_DataField :: "Record \<Rightarrow> string list \<Rightarrow> DataField list" where
  "Record_DataField r tag = DataField_outer tag (Fields r) []"

text \<open>
  \<^verbatim>\<open>DataField.SubField(subfield...)\<close>: the outer loop runs over the requested codes,
  the inner loop over \<^verbatim>\<open>d.SubFields\<close>.
\<close>

fun SubField_inner :: "string \<Rightarrow> SubField list \<Rightarrow> SubField list \<Rightarrow> SubField list" where
  "SubField_inner s [] fields' = fields'"
| "SubField_inner s (f # fs) fields' =
     SubField_inner s fs (if Code f = s then fields' @ [f] else fields')"

fun SubField_outer :: "string list \<Rightarrow> SubField list \<Rightarrow> SubField list \<Rightarrow> SubField list" where
  "SubField_outer [] sfs fields' = fields'"
| "SubField_outer (s # ss) sfs fields' =
     SubField_outer ss sfs (SubField_inner s sfs fields')"

definition DataField_SubField :: "DataField \<Rightarrow> string list \<Rightarrow> SubField list" where
  "DataField_SubField d subfield = SubField_outer subfield (SubFields d) []"

text \<open>
  \<^verbatim>\<open>Record.ControlNum\<close>: the index expression \<^verbatim>\<open>r.ControlField("001")[0]\<close> panics on
  an empty slice; the method has no error result.
\<close>

definition Record_ControlNum :: "Record \<Rightarrow> panic + string" where
  "Record_ControlNum r =
     (case Record_ControlField r [''001''] of
        [] \<Rightarrow> Inl IndexOutOfRange
      | cf # _ \<Rightarrow> Inr (TrimSpace (cValue cf)))"

section \<open>The filter\<close>

definition DataField_matches :: "DataField \<Rightarrow> string \<Rightarrow> string \<Rightarrow> string \<Rightarrow> bool" where
  "DataField_matches d tag ind1 ind2 =
     (let t = (Tag d = tag);
          i1 = (ind1 = ''*'' \<or> Indicator1 d = ind1);
          i2 = (ind2 = ''*'' \<or> Indicator2 d = ind2)
      in t \<and> i1 \<and> i2)"

text \<open>
  The part of the \<^verbatim>\<open>DataField\<close> case of \<^verbatim>\<open>Filter\<close> that reads the query: the index
  of the first \<^verbatim>\<open>|\<close>, then either the two indicator bytes \<^verbatim>\<open>q[ind+1]\<close>,
  \<^verbatim>\<open>q[ind+2]\<close> and the codes \<^verbatim>\<open>q[ind+4:]\<close>, or the wildcards and \<^verbatim>\<open>q[3:]\<close>.
  It runs after \<^verbatim>\<open>tag := q[:3]\<close>, so \<^verbatim>\<open>q[3:]\<close> is in range. The result is
  \<open>(ind1, ind2, subs)\<close>.
\<close>

definition Filter_query :: "string \<Rightarrow> panic + (string \<times> string \<times> string)" where
  "Filter_query q =
     (let ind = IndexByte q (CHR ''|'') in
      if ind > -1 then
        if int (length q) \<le> ind + 2 then Inl IndexOutOfRange
        else if int (length q) < ind + 4 then Inl SliceBoundsOutOfRange
        else Inr (string_of_byte (q ! nat (ind + 1)), string_of_byte (q ! nat (ind + 2)),
                  drop (nat (ind + 4)) q)
      else Inr (''*'', ''*'', drop 3 q))"

text \<open>
  The body of the inner loop of \<^verbatim>\<open>Filter\<close> for one field: the groups it appends to
  \<^verbatim>\<open>res\<close> (none or one).
\<close>

fun Filter_field :: "string \<Rightarrow> string \<Rightarrow> Field \<Rightarrow> panic + string list list" where
  "Filter_field q tag (IsControlField f) =
     Inr (if cTag f = tag then [[cValue f]] else [])"
| "Filter_field q tag (IsDataField f) =
     (case Filter_query q of
        Inl p \<Rightarrow> Inl p
      | Inr (ind1, ind2, subs) \<Rightarrow>
          if DataField_matches f tag ind1 ind2 then
            (let values =
               (if length subs \<noteq> 0
                then map Value (DataField_SubField f (strings_explode subs))
                else map Value (SubFields f))
             in Inr (if length values > 0 then [values] else []))
          else Inr [])"

fun Filter_fields :: "string \<Rightarrow> string \<Rightarrow> Field list \<Rightarrow> string list list \<Rightarrow> panic + string list list" where
  "Filter_fields q tag [] res = Inr res"
| "Filter_fields q tag (field # rest) res =
     (case Filter_field q tag field of
        Inl p \<Rightarrow> Inl p
      | Inr vs \<Rightarrow> Filter_fields q tag rest (res @ vs))"

text \<open>The outer loop over the queries; \<^verbatim>\<open>tag := q[:3]\<close> panics on a shorter query.\<close>

fun Filter_queries :: "Record \<Rightarrow> string list \<Rightarrow> string list list \<Rightarrow> panic + string list list" where
  "Filter_queries r [] res = Inr res"
| "Filter_queries r (q # qs) res =
     (if length q < 3 then Inl SliceBoundsOutOfRange
      else (case Filter_fields q (take 3 q) (Fields r) res of
              Inl p \<Rightarrow> Inl p
            | Inr res' \<Rightarrow> Filter_queries r qs res'))"

definition Record_Filter :: "Record \<Rightarrow> string list \<Rightarrow> panic + string list list" where
  "Record_Filter r query = Filter_queries r query []"

text \<open>
  The revision of the library that keeps the raw fields (\<^verbatim>\<open>splitQuery\<close>,
  \<^verbatim>\<open>subfields\<close>) reads the query once, before it looks at any field:
  \<^verbatim>\<open>tag := query[:3]\<close>, then the same index and slice expressions. The indicators
  are bytes there. The result is \<open>(tag, ind1, ind2, subs)\<close>.
\<close>

definition splitQuery :: "string \<Rightarrow> panic + (string \<times> byte \<times> byte \<times> string)" where
  "splitQuery query =
     (if length query < 3 then Inl SliceBoundsOutOfRange
      else
        (let tag = take 3 query; ind = IndexByte query (CHR ''|'') in
         if ind > -1 then
           if int (length query) \<le> ind + 2 then Inl IndexOutOfRange
           else if int (length query) < ind + 4 then Inl SliceBoundsOutOfRange
           else Inr (tag, query ! nat (ind + 1), query ! nat (ind + 2),
                     drop (nat (ind + 4)) query)
         else Inr (tag, CHR ''*'', CHR ''*'', drop 3 query)))"

text \<open>
  \<^verbatim>\<open>subfields(data, codes...)\<close> of the same revision: one pass over the segments of
  the field in field order; an empty segment is skipped, and with codes given a
  segment is kept when its first byte is one of them (the inner loop appends once
  and breaks).
\<close>

fun subfields_loop :: "bytes list \<Rightarrow> string list \<Rightarrow> SubField list \<Rightarrow> SubField list" where
  "subfields_loop [] codes res = res"
| "subfields_loop ([] # sfs) codes res = subfields_loop sfs codes res"
| "subfields_loop ((c # v) # sfs) codes res =
     subfields_loop sfs codes
       (if length codes > 0 then
          (if string_of_byte c \<in> set codes
           then res @ [\<lparr>Code = string_of_byte c, Value = v\<rparr>] else res)
        else res @ [\<lparr>Code = string_of_byte c, Value = v\<rparr>])"

definition subfields :: "bytes \<Rightarrow> string list \<Rightarrow> SubField list" where
  "subfields data codes = subfields_loop (Split data st) codes []"

section \<open>The framer\<close>

text \<open>
  \<^verbatim>\<open>splitFunc(data, atEOF)\<close> returns \<open>(advance, token, err)\<close>; a \<^verbatim>\<open>nil\<close> token is
  \<open>None\<close>, and the final bare \<^verbatim>\<open>return\<close> gives the zero values.
\<close>

definition splitFunc :: "bytes \<Rightarrow> bool \<Rightarrow> int \<times> bytes option \<times> error" where
  "splitFunc data atEOF =
     (if atEOF \<and> length data = 0 then (0, None, None)
      else if atEOF then (int (length data), Some data, None)
      else (let i = IndexByte data rt in
            if i \<ge> 0 then (i + 1, Some (take (nat i) data), None)
            else (0, None, None)))"

text \<open>
  \<^verbatim>\<open>NewMarcIterator\<close> hands \<^verbatim>\<open>splitFunc\<close> to a \<^verbatim>\<open>bufio.Scanner\<close> (Go standard
  library), and \<^verbatim>\<open>Next\<close> is its \<^verbatim>\<open>Scan\<close>. The model of \<^verbatim>\<open>Scan\<close> keeps what decides
  the tokens: \<open>buf\<close> is the unprocessed data the scanner holds, \<open>err\<close> says that a
  \<^verbatim>\<open>Read\<close> has returned a non-nil error (\<^verbatim>\<open>io.EOF\<close> at the end of the stream), and
  \<open>reads\<close> lists what the coming calls of \<^verbatim>\<open>Read\<close> return: the bytes, and whether the
  error came with them. An \<^verbatim>\<open>io.Reader\<close> may return its last bytes together with
  \<^verbatim>\<open>io.EOF\<close> or return \<^verbatim>\<open>0, io.EOF\<close> on the next call; when the list is used up,
  \<^verbatim>\<open>Read\<close> returns \<^verbatim>\<open>0, io.EOF\<close>.

  Each turn of \<^verbatim>\<open>Scan\<close> calls the split function on the held data when there is
  some or the error is set, with \<^verbatim>\<open>atEOF\<close> being \<^verbatim>\<open>s.err != nil\<close>; a token ends the
  call of \<^verbatim>\<open>Scan\<close>, otherwise the scanner stops when the error is set and reads
  more when it is not. \<open>Scan_tokens\<close> is the sequence of tokens that the successive
  calls of \<^verbatim>\<open>Next\<close> make available to \<^verbatim>\<open>Value\<close>. The limit of the scanner's buffer
  (a token of 64 KiB or more ends the scan with \<^verbatim>\<open>ErrTooLong\<close>) is not modelled.
\<close>

function Scan_tokens :: "bytes \<Rightarrow> bool \<Rightarrow> (bytes \<times> bool) list \<Rightarrow> bytes list" where
  "Scan_tokens buf err reads =
     (case (if buf \<noteq> [] \<or> err then splitFunc buf err else (0, None, None)) of
        (advance, Some token, _) \<Rightarrow>
          token # Scan_tokens (drop (nat advance) buf) err reads
      | (advance, None, _) \<Rightarrow>
          if err then []
          else (case reads of
                  [] \<Rightarrow> Scan_tokens (drop (nat advance) buf) True []
                | (chunk, e) # rest \<Rightarrow> Scan_tokens (drop (nat advance) buf @ chunk) e rest))"
  by pat_completeness auto
termination
  by (relation "measure (\<lambda>(buf, err, reads).
         length buf + (\<Sum>r\<leftarrow>reads. length (fst r) + 2) + (if err then 0 else 1))")
     (auto simp: splitFunc_def Let_def split: if_splits)

declare Scan_tokens.simps [simp del]

section \<open>Buffers in memory\<close>

text \<open>
  The token that \<^verbatim>\<open>Value\<close> passes to \<^verbatim>\<open>scanIntoRecord\<close> is a slice of the scanner's
  buffer, which the next \<^verbatim>\<open>Scan\<close> may overwrite. Where that matters, arrays live
  in a store: an address is an index into the list of the arrays allocated so far,
  and a slice refers to an array by its address, with an offset and a length.
\<close>

type_synonym addr = nat
type_synonym store = "bytes list"

record slice_ref =
  sl_array :: addr
  sl_off :: nat
  sl_len :: nat

definition load :: "store \<Rightarrow> slice_ref \<Rightarrow> bytes" where
  "load s r = take (sl_len r) (drop (sl_off r) (s ! sl_array r))"

text \<open>
  \<^verbatim>\<open>append([]byte(nil), bytes...)\<close> allocates a new array that holds the bytes and
  returns the slice of all of it.
\<close>

definition append_nil :: "store \<Rightarrow> bytes \<Rightarrow> slice_ref \<times> store" where
  "append_nil s bs = (\<lparr>sl_array = length s, sl_off = 0, sl_len = length bs\<rparr>, s @ [bs])"

text \<open>A later write to an array of the store, such as the scanner refilling its buffer.\<close>

definition overwrite :: "store \<Rightarrow> addr \<Rightarrow> bytes \<Rightarrow> store" where
  "overwrite s a bs = s[a := bs]"

text \<open>
  \<^verbatim>\<open>MarcIterator.Value\<close> on a token in the store: the record and the error of
  \<^verbatim>\<open>scanIntoRecord\<close> on the bytes of the token, the slice that \<^verbatim>\<open>rec.Data\<close> is, and
  the store after the call. The fields of the record are Go strings, which are
  immutable values of their own.
\<close>

definition Value_in_store ::
    "store \<Rightarrow> slice_ref \<Rightarrow> panic + ((Record \<times> error) \<times> slice_ref \<times> store)" where
  "Value_in_store s tok =
     (let (d, s') = append_nil s (load s tok) in
      case scanIntoRecord (load s tok) of
        Inl p \<Rightarrow> Inl p
      | Inr result \<Rightarrow> Inr (result, d, s'))"

section \<open>Example data\<close>

text \<open>
  A record of four fields as the framer hands it to the decoder (146 bytes, the
  record terminator already removed): the leader with base address 73, four
  directory entries, the field terminator 0x1E, and the four fields.
\<close>

definition example_buffer :: bytes where
  "example_buffer =
     ''00147nam a2200073 a 4500''
     @ ''001001100000'' @ ''245002500011'' @ ''650001800036'' @ ''650001900054'' @ [CHR 0x1E]
     @ ''  92005291'' @ [CHR 0x1E]
     @ ''10'' @ [CHR 0x1F] @ ''aTomb of Annihilation'' @ [CHR 0x1E]
     @ '' 0'' @ [CHR 0x1F] @ ''aCats'' @ [CHR 0x1F] @ ''xPoetry.'' @ [CHR 0x1E]
     @ '' 1'' @ [CHR 0x1F] @ ''aDogs'' @ [CHR 0x1F] @ ''xFiction.'' @ [CHR 0x1E]"

definition example_control :: ControlField where
  "example_control = \<lparr>cTag = ''001'', cValue = ''  92005291''\<rparr>"

definition example_title :: DataField where
  "example_title =
     \<lparr>Indicator1 = ''1'', Indicator2 = ''0'', Tag = ''245'',
      SubFields = [\<lparr>Code = ''a'', Value = ''Tomb of Annihilation''\<rparr>]\<rparr>"

definition example_subject1 :: DataField where
  "example_subject1 =
     \<lparr>Indicator1 = '' '', Indicator2 = ''0'', Tag = ''650'',
      SubFields = [\<lparr>Code = ''a'', Value = ''Cats''\<rparr>, \<lparr>Code = ''x'', Value = ''Poetry.''\<rparr>]\<rparr>"

definition example_subject2 :: DataField where
  "example_subject2 =
     \<lparr>Indicator1 = '' '', Indicator2 = ''1'', Tag = ''650'',
      SubFields = [\<lparr>Code = ''a'', Value = ''Dogs''\<rparr>, \<lparr>Code = ''x'', Value = ''Fiction.''\<rparr>]\<rparr>"

definition example_fields :: "Field list" where
  "example_fields =
     [IsControlField example_control, IsDataField example_title,
      IsDataField example_subject1, IsDataField example_subject2]"

definition example_leader :: Leader where
  "example_leader =
     \<lparr>Status = CHR ''n'', Type = CHR ''a'', BibLevel = CHR ''m'', Control = CHR '' '',
      EncodingLevel = CHR '' '', Form = CHR ''a'', Multipart = CHR '' ''\<rparr>"

definition example_record :: Record where
  "example_record =
     \<lparr>Data = example_buffer, Fields = example_fields, Leader = example_leader\<rparr>"

text \<open>The same record without its control number field.\<close>

definition unnumbered_record :: Record where
  "unnumbered_record =
     \<lparr>Data = [], Fields = tl example_fields, Leader = example_leader\<rparr>"

text \<open>A data field whose subfield \<open>b\<close> stands before its subfield \<open>a\<close>.\<close>

definition imprint_field :: DataField where
  "imprint_field =
     \<lparr>Indicator1 = '' '', Indicator2 = '' '', Tag = ''260'',
      SubFields = [\<lparr>Code = ''b'', Value = ''Harcourt''\<rparr>,
                   \<lparr>Code = ''a'', Value = ''San Diego''\<rparr>]\<rparr>"

text \<open>
  Buffers that the framer can emit for a damaged stream: three bytes, and a leader
  whose base address 99999 lies beyond the 24 bytes of the buffer.
\<close>

definition short_buffer :: bytes where
  "short_buffer = ''abc''"

definition far_base_buffer :: bytes where
  "far_base_buffer = ''00147nam a2299999 a 4500''"

text \<open>A leader whose base address 10 lies inside the leader.\<close>

definition near_base_buffer :: bytes where
  "near_base_buffer = ''00147nam a2200010 a 4500''"

text \<open>
  One directory entry for the tag 245 that reports a field of 99 bytes at offset 0,
  the six bytes of data that really follow, and the record buffer made of them
  (base address 37).
\<close>

definition overlong_entry :: bytes where
  "overlong_entry = ''245009900000''"

definition overlong_data :: bytes where
  "overlong_data = ''10'' @ [CHR 0x1F] @ ''aT'' @ [CHR 0x1E]"

definition overlong_buffer :: bytes where
  "overlong_buffer =
     ''00043nam a2200037 a 4500'' @ overlong_entry @ [CHR 0x1E] @ overlong_data"

text \<open>The directory entry and the data region of the first field of the example.\<close>

definition control_entry :: bytes where
  "control_entry = ''001001100000''"

definition control_data :: bytes where
  "control_data = ''  92005291'' @ [CHR 0x1E]"

text \<open>
  A record buffer with base address 30: its directory span, bytes 24 to 28, has five
  bytes, fewer than one entry.
\<close>

definition partial_directory_buffer :: bytes where
  "partial_directory_buffer =
     ''00031nam a2200030 a 4500'' @ ''24500'' @ [CHR 0x1E] @ ''x''"

text \<open>
  The content of a data field that ends with a subfield delimiter, so that the last
  segment is empty, and the content of the 245 field of the example.
\<close>

definition dangling_field :: bytes where
  "dangling_field = ''10'' @ [CHR 0x1F] @ ''aT'' @ [CHR 0x1F]"

definition title_field :: bytes where
  "title_field = ''10'' @ [CHR 0x1F] @ ''aTomb of Annihilation''"

text \<open>
  The scanner's buffer while the example record is the current token: the record,
  its terminator and the beginning of the next record; and the token.
\<close>

definition scanner_store :: store where
  "scanner_store = [example_buffer @ [rt] @ ''00025nam a22'']"

definition scanner_token :: slice_ref where
  "scanner_token = \<lparr>sl_array = 0, sl_off = 0, sl_len = 146\<rparr>"

text \<open>
  A stream of three bytes, the record \<open>A\<close> with its terminator and the record \<open>B\<close>
  without one, from a reader that returns the three bytes together with
  \<^verbatim>\<open>io.EOF\<close>, and from a reader that returns them first and \<^verbatim>\<open>0, io.EOF\<close> on the
  next call.
\<close>

definition two_records :: bytes where
  "two_records = ''A'' @ [rt] @ ''B''"

definition reads_with_EOF :: "(bytes \<times> bool) list" where
  "reads_with_EOF = [(two_records, True)]"

definition reads_then_EOF :: "(bytes \<times> bool) list" where
  "reads_then_EOF = [(two_records, False)]"

section \<open>Predicates of the specification\<close>

text \<open>The field is a control field with the tag \<open>t\<close>.\<close>

definition is_control_field :: "string \<Rightarrow> Field \<Rightarrow> bool" where
  "is_control_field t f =
     (case f of IsControlField c \<Rightarrow> cTag c = t | IsDataField _ \<Rightarrow> False)"

text \<open>The string \<open>t\<close> occurs in \<open>msg\<close> as a run of consecutive characters.\<close>

fun occurs_in :: "string \<Rightarrow> string \<Rightarrow> bool" where
  "occurs_in t [] = (t = [])"
| "occurs_in t (c # cs) = (take (length t) (c # cs) = t \<or> occurs_in t cs)"

text \<open>Every subfield of the field has a code of at least one character.\<close>

definition codes_nonempty :: "Field \<Rightarrow> bool" where
  "codes_nonempty f =
     (case f of
        IsControlField _ \<Rightarrow> True
      | IsDataField d \<Rightarrow> list_all (\<lambda>sf. Code sf \<noteq> []) (SubFields d))"

text \<open>The messages of the errors that \<^verbatim>\<open>scanIntoRecord\<close> and \<^verbatim>\<open>makeDataField\<close> create.\<close>

definition decode_errors :: "string list" where
  "decode_errors =
     [''Could not determine record start'', ''Could not determine length of field'',
      ''Could not determine field start'', ''Reported field length incorrect'',
      ''Invalid Indicators detected'', ''Extraneous field terminator'']"

text \<open>The tag of a field of either kind.\<close>

definition field_tag :: "Field \<Rightarrow> string" where
  "field_tag f = (case f of IsControlField c \<Rightarrow> cTag c | IsDataField d \<Rightarrow> Tag d)"

text \<open>
  The shape of a query that the index and slice expressions of \<^verbatim>\<open>Filter\<close> and
  \<^verbatim>\<open>splitQuery\<close> need beyond its first three characters: when the query has a
  \<^verbatim>\<open>|\<close>, the first one at index \<open>ind\<close>, the query has at least \<open>ind + 4\<close>
  characters.
\<close>

definition pipe_in_range :: "string \<Rightarrow> bool" where
  "pipe_in_range q =
     (let ind = IndexByte q (CHR ''|'') in ind > -1 \<longrightarrow> ind + 4 \<le> int (length q))"

text \<open>
  The framing that the specification describes: the stream cut at every record
  terminator, the terminators left out; nothing after a final terminator, and the
  bytes after the last terminator as a final buffer when there are any.
\<close>

definition spec_frames :: "bytes \<Rightarrow> bytes list" where
  "spec_frames s = (let segs = Split s rt in if last segs = [] then butlast segs else segs)"

section \<open>Properties of the accessors\<close>

lemma example_decodes: "scanIntoRecord example_buffer = Inr (example_record, None)"
  by code_simp

lemma SubField_inner_filter:
  "SubField_inner s fs acc = acc @ filter (\<lambda>f. Code f = s) fs"
  by (induction fs arbitrary: acc) auto

lemma SubField_outer_concat:
  "SubField_outer ss sfs acc = acc @ concat (map (\<lambda>s. filter (\<lambda>f. Code f = s) sfs) ss)"
  by (induction ss arbitrary: acc) (auto simp: SubField_inner_filter)

lemma DataField_SubField_concat:
  "DataField_SubField d codes
     = concat (map (\<lambda>s. filter (\<lambda>f. Code f = s) (SubFields d)) codes)"
  by (simp add: DataField_SubField_def SubField_outer_concat)

text \<open>
  Claim C6, as the code has it. \<^verbatim>\<open>d.SubField(codes...)\<close> returns the subfields of
  \<open>d\<close> whose code is one of the requested codes (the two sets are equal), grouped by
  the order of the requested codes: for each requested code in turn, the subfields
  with that code in field order. With one requested code this is field order.
\<close>

theorem SubField_grouped_by_requested_code:
  "set (DataField_SubField d codes) = {f \<in> set (SubFields d). Code f \<in> set codes}
   \<and> DataField_SubField d codes
       = concat (map (\<lambda>s. filter (\<lambda>f. Code f = s) (SubFields d)) codes)
   \<and> DataField_SubField d [c] = filter (\<lambda>f. Code f = c) (SubFields d)"
  by (auto simp: DataField_SubField_concat)

theorem SubField_grouped_by_requested_code_witness:
  "DataField_SubField imprint_field [''a'', ''b'']
     = [\<lparr>Code = ''a'', Value = ''San Diego''\<rparr>, \<lparr>Code = ''b'', Value = ''Harcourt''\<rparr>]
   \<and> DataField_SubField imprint_field [''b'']
     = [\<lparr>Code = ''b'', Value = ''Harcourt''\<rparr>]"
proof -
  have c: "concat (map (\<lambda>s. filter (\<lambda>f. Code f = s) (SubFields imprint_field)) [''a'', ''b''])
     = [\<lparr>Code = ''a'', Value = ''San Diego''\<rparr>, \<lparr>Code = ''b'', Value = ''Harcourt''\<rparr>]"
    by (simp add: imprint_field_def)
  have b: "filter (\<lambda>f. Code f = ''b'') (SubFields imprint_field)
     = [\<lparr>Code = ''b'', Value = ''Harcourt''\<rparr>]"
    by (simp add: imprint_field_def)
  note t = SubField_grouped_by_requested_code [of imprint_field "[''a'', ''b'']" "''b''"]
  from t have 1: "DataField_SubField imprint_field [''a'', ''b'']
     = concat (map (\<lambda>s. filter (\<lambda>f. Code f = s) (SubFields imprint_field)) [''a'', ''b''])"
    by blast
  from t have 2: "DataField_SubField imprint_field [''b'']
     = filter (\<lambda>f. Code f = ''b'') (SubFields imprint_field)"
    by blast
  from 1 2 c b show ?thesis by simp
qed

text \<open>
  Claim C6 as stated fails: both subfields of the imprint field are requested, so
  field order would return them as they stand in the field, \<open>b\<close> before \<open>a\<close>; the
  method returns \<open>a\<close> before \<open>b\<close>, the order of the request.
\<close>

theorem SubField_not_in_field_order:
  "SubFields imprint_field
     = [\<lparr>Code = ''b'', Value = ''Harcourt''\<rparr>, \<lparr>Code = ''a'', Value = ''San Diego''\<rparr>]
   \<and> DataField_SubField imprint_field [''a'', ''b'']
     = [\<lparr>Code = ''a'', Value = ''San Diego''\<rparr>, \<lparr>Code = ''b'', Value = ''Harcourt''\<rparr>]
   \<and> DataField_SubField imprint_field [''a'', ''b''] \<noteq> SubFields imprint_field"
  by (simp add: DataField_SubField_def imprint_field_def)

text \<open>
  The function \<^verbatim>\<open>subfields\<close> of the revision that keeps the raw fields does keep
  the field order: with codes given it returns, in the order of the field, the
  subfields whose code is one of them, each once. It skips empty segments.
\<close>

lemma subfields_loop_all:
  "subfields_loop segs [] res
     = res @ map (\<lambda>seg. \<lparr>Code = string_of_byte (hd seg), Value = tl seg\<rparr>)
               (filter (\<lambda>seg. seg \<noteq> []) segs)"
  by (induction segs "[] :: string list" res rule: subfields_loop.induct) auto

lemma subfields_loop_codes:
  "codes \<noteq> [] \<Longrightarrow>
   subfields_loop segs codes res
     = res @ filter (\<lambda>sf. Code sf \<in> set codes)
               (map (\<lambda>seg. \<lparr>Code = string_of_byte (hd seg), Value = tl seg\<rparr>)
                  (filter (\<lambda>seg. seg \<noteq> []) segs))"
  by (induction segs codes res rule: subfields_loop.induct) auto

lemma subfields_field_order:
  "codes \<noteq> [] \<Longrightarrow>
   subfields data codes = filter (\<lambda>sf. Code sf \<in> set codes) (subfields data [])"
  by (simp add: subfields_def subfields_loop_codes subfields_loop_all)

lemma subfields_skips_empty_segments:
  "subfields data [] = map (\<lambda>seg. \<lparr>Code = string_of_byte (hd seg), Value = tl seg\<rparr>)
                         (filter (\<lambda>seg. seg \<noteq> []) (Split data st))"
  by (simp add: subfields_def subfields_loop_all)

lemma subfields_example:
  "subfields (''bHarcourt'' @ [st] @ [st] @ ''aSan Diego'') [''a'', ''b'']
     = [\<lparr>Code = ''b'', Value = ''Harcourt''\<rparr>, \<lparr>Code = ''a'', Value = ''San Diego''\<rparr>]"
  by code_simp

lemma ControlField_inner_concat:
  "ControlField_inner t fs acc
     = acc @ concat (map (\<lambda>f. case f of
                                 IsControlField c \<Rightarrow> if cTag c = t then [c] else []
                               | IsDataField _ \<Rightarrow> []) fs)"
  by (induction fs arbitrary: acc) (auto split: Field.splits)

lemma Record_ControlField_single:
  "Record_ControlField r [t]
     = concat (map (\<lambda>f. case f of
                           IsControlField c \<Rightarrow> if cTag c = t then [c] else []
                         | IsDataField _ \<Rightarrow> []) (Fields r))"
  by (simp add: Record_ControlField_def ControlField_inner_concat)

text \<open>
  For several requested tags the accessors return the matches of the first tag, then
  those of the second, and so on.
\<close>

lemma DataField_inner_concat:
  "DataField_inner t fs acc
     = acc @ concat (map (\<lambda>f. case f of
                                 IsDataField d \<Rightarrow> if Tag d = t then [d] else []
                               | IsControlField _ \<Rightarrow> []) fs)"
  by (induction fs arbitrary: acc) (auto split: Field.splits)

lemma DataField_outer_concat:
  "DataField_outer ts fs acc
     = acc @ concat (map (\<lambda>t. concat (map (\<lambda>f. case f of
                                 IsDataField d \<Rightarrow> if Tag d = t then [d] else []
                               | IsControlField _ \<Rightarrow> []) fs)) ts)"
  by (induction ts arbitrary: acc) (auto simp: DataField_inner_concat)

lemma ControlField_outer_concat:
  "ControlField_outer ts fs acc
     = acc @ concat (map (\<lambda>t. concat (map (\<lambda>f. case f of
                                 IsControlField c \<Rightarrow> if cTag c = t then [c] else []
                               | IsDataField _ \<Rightarrow> []) fs)) ts)"
  by (induction ts arbitrary: acc) (auto simp: ControlField_inner_concat)

lemma Record_DataField_by_tag:
  "Record_DataField r (ts @ ts') = Record_DataField r ts @ Record_DataField r ts'"
  by (simp add: Record_DataField_def DataField_outer_concat)

lemma Record_ControlField_by_tag:
  "Record_ControlField r (ts @ ts') = Record_ControlField r ts @ Record_ControlField r ts'"
  by (simp add: Record_ControlField_def ControlField_outer_concat)

lemma Record_DataField_example:
  "Record_DataField example_record [''650'', ''245'']
     = [example_subject1, example_subject2, example_title]"
  by code_simp

lemma no_control_field_concat:
  "\<forall>f \<in> set fs. \<not> is_control_field t f \<Longrightarrow>
   concat (map (\<lambda>f. case f of
                       IsControlField c \<Rightarrow> if cTag c = t then [c] else []
                     | IsDataField _ \<Rightarrow> []) fs) = []"
  by (induction fs) (auto simp: is_control_field_def split: Field.splits)

lemma first_control_field_concat:
  "find (is_control_field t) fs = Some f \<Longrightarrow>
   \<exists>c rest. f = IsControlField c
      \<and> concat (map (\<lambda>f. case f of
                            IsControlField c \<Rightarrow> if cTag c = t then [c] else []
                          | IsDataField _ \<Rightarrow> []) fs) = c # rest"
  by (induction fs) (auto simp: is_control_field_def split: Field.splits if_splits)

text \<open>
  Claim C4, as the code has it. \<^verbatim>\<open>ControlNum\<close> has one result, a string, and no
  error result. On a record with no \<open>001\<close> control field the index expression
  \<^verbatim>\<open>r.ControlField("001")[0]\<close> panics (index out of range), so nothing is returned,
  an empty string neither; on a record with a \<open>001\<close> control field the result is
  the value of the first one with the white space trimmed at both ends.
\<close>

theorem ControlNum_panics_or_trims_first:
  "(find (is_control_field ''001'') (Fields r) = None
      \<longrightarrow> Record_ControlNum r = Inl IndexOutOfRange)
   \<and> (\<forall>c. find (is_control_field ''001'') (Fields r) = Some (IsControlField c)
          \<longrightarrow> Record_ControlNum r = Inr (TrimSpace (cValue c)))"
proof (intro conjI impI allI)
  assume "find (is_control_field ''001'') (Fields r) = None"
  then have "\<forall>f \<in> set (Fields r). \<not> is_control_field ''001'' f"
    by (simp add: find_None_iff)
  then show "Record_ControlNum r = Inl IndexOutOfRange"
    by (simp add: Record_ControlNum_def Record_ControlField_single no_control_field_concat)
next
  fix c
  assume "find (is_control_field ''001'') (Fields r) = Some (IsControlField c)"
  from first_control_field_concat [OF this]
  show "Record_ControlNum r = Inr (TrimSpace (cValue c))"
    by (auto simp: Record_ControlNum_def Record_ControlField_single)
qed

theorem ControlNum_panics_or_trims_first_witness:
  "find (is_control_field ''001'') (Fields unnumbered_record) = None
   \<and> Record_ControlNum unnumbered_record = Inl IndexOutOfRange
   \<and> find (is_control_field ''001'') (Fields example_record)
       = Some (IsControlField \<lparr>cTag = ''001'', cValue = ''  92005291''\<rparr>)
   \<and> Record_ControlNum example_record = Inr ''92005291''"
proof -
  have none: "find (is_control_field ''001'') (Fields unnumbered_record) = None"
    by (simp add: unnumbered_record_def example_fields_def is_control_field_def)
  have first: "find (is_control_field ''001'') (Fields example_record)
                 = Some (IsControlField \<lparr>cTag = ''001'', cValue = ''  92005291''\<rparr>)"
    by (simp add: example_record_def example_fields_def example_control_def
          is_control_field_def)
  have trim: "TrimSpace ''  92005291'' = ''92005291''"
    by code_simp
  from ControlNum_panics_or_trims_first [of unnumbered_record]
       ControlNum_panics_or_trims_first [of example_record] none first trim
  show ?thesis by simp
qed

text \<open>
  Claim C4 as stated fails: on the record without a \<open>001\<close> field the accessor
  returns no not-found condition to its caller; the call panics.
\<close>

theorem ControlNum_aborts_without_001:
  "Record_ControlField unnumbered_record [''001''] = []
   \<and> Record_ControlNum unnumbered_record = Inl IndexOutOfRange"
  by (simp add: Record_ControlNum_def Record_ControlField_def unnumbered_record_def
        example_fields_def)

section \<open>Properties of the decoder\<close>

lemma scanIntoRecord_short:
  "length bytes < 20 \<Longrightarrow> scanIntoRecord bytes = Inl IndexOutOfRange"
  by (simp add: scanIntoRecord_def)

text \<open>
  Claim C2 fails on the code. The decoder has an error result and uses it for
  unparsable numbers and for a field beyond the data, but it checks neither the
  length of the buffer before the index expressions \<^verbatim>\<open>bytes[5]\<close> to \<^verbatim>\<open>bytes[19]\<close>
  nor the base address before the slice expressions \<^verbatim>\<open>bytes[start:]\<close> and
  \<^verbatim>\<open>bytes[24 : start-1]\<close>: on a buffer of three bytes, on a buffer whose base
  address lies beyond its end and on a buffer whose base address is below 25 the
  call panics.
\<close>

theorem scanIntoRecord_panics_on_short_buffer:
  "scanIntoRecord short_buffer = Inl IndexOutOfRange
   \<and> scanIntoRecord far_base_buffer = Inl SliceBoundsOutOfRange
   \<and> scanIntoRecord near_base_buffer = Inl SliceBoundsOutOfRange"
  by (simp add: scanIntoRecord_def short_buffer_def far_base_buffer_def near_base_buffer_def
        slice_def Atoi_def is_digit_def)

lemma slice_take: "hi \<le> n \<Longrightarrow> slice (take n xs) lo hi = slice xs lo hi"
  by (simp add: slice_def drop_take min_def)

lemma dirEntry_beyond:
  assumes "Atoi (slice dirs 3 7) = Some len" and "Atoi (slice dirs 7 12) = Some begin"
    and "int (length data) \<le> begin + len - 1"
  shows "dirEntry data dirs = Inr (Inl ''Reported field length incorrect'')"
  using assms by (simp add: dirEntry_def)

lemma dirEntry_field_within:
  assumes "Atoi (slice dirs 3 7) = Some len" and "Atoi (slice dirs 7 12) = Some begin"
    and "dirEntry data dirs = Inr (Inr f)"
  shows "begin + len - 1 < int (length data)"
  using assms by (auto simp: dirEntry_def Let_def split: if_splits)

text \<open>
  Claim C1, as the code has it. For a directory entry whose two numbers parse to
  \<open>len\<close> and \<open>begin\<close>, the turn of the loop yields a field only when
  \<open>begin + len - 1 < len(data)\<close>, hence only within the bound of the claim. When
  \<open>begin + len - 1 \<ge> len(data)\<close>, so whenever the bound of the claim is violated,
  the turn returns the error with the fixed message "Reported field length incorrect"
  before it slices the data: the decoder returns the record built so far with that
  error, and no panic. The message is the same for every tag.
\<close>

theorem field_beyond_data_is_error:
  assumes "Atoi (slice dirs 3 7) = Some len" and "Atoi (slice dirs 7 12) = Some begin"
  shows "((\<exists>f. dirEntry data dirs = Inr (Inr f)) \<longrightarrow> begin + len - 1 < int (length data))
       \<and> (int (length data) \<le> begin + len - 1 \<longrightarrow>
            dirEntry data dirs = Inr (Inl ''Reported field length incorrect'')
            \<and> (12 \<le> length dirs \<longrightarrow>
                 scanDirs data dirs rec
                   = Inr (rec, Some ''Reported field length incorrect'')))"
  using dirEntry_beyond [OF assms] dirEntry_field_within [OF assms]
  by (auto simp: scanDirs.simps [of data dirs rec])

theorem field_beyond_data_is_error_witness:
  "Atoi (slice overlong_entry 3 7) = Some 99 \<and> Atoi (slice overlong_entry 7 12) = Some 0
   \<and> int (length overlong_data) \<le> 0 + 99 - 1
   \<and> scanDirs overlong_data overlong_entry example_record
       = Inr (example_record, Some ''Reported field length incorrect'')
   \<and> dirEntry control_data control_entry
       = Inr (Inr (IsControlField \<lparr>cTag = ''001'', cValue = ''  92005291''\<rparr>))
   \<and> (0::int) + 11 - 1 < int (length control_data)"
proof -
  have l: "Atoi (slice overlong_entry 3 7) = Some 99"
    by (simp add: overlong_entry_def slice_def Atoi_def is_digit_def)
  have b: "Atoi (slice overlong_entry 7 12) = Some 0"
    by (simp add: overlong_entry_def slice_def Atoi_def is_digit_def)
  have l': "Atoi (slice control_entry 3 7) = Some 11"
    by (simp add: control_entry_def slice_def Atoi_def is_digit_def)
  have b': "Atoi (slice control_entry 7 12) = Some 0"
    by (simp add: control_entry_def slice_def Atoi_def is_digit_def)
  have f: "dirEntry control_data control_entry
             = Inr (Inr (IsControlField \<lparr>cTag = ''001'', cValue = ''  92005291''\<rparr>))"
    by code_simp
  have n: "12 \<le> length overlong_entry" "int (length overlong_data) \<le> 0 + 99 - 1"
    by (simp_all add: overlong_entry_def overlong_data_def)
  from field_beyond_data_is_error [OF l b, of overlong_data example_record]
       field_beyond_data_is_error [OF l' b', of control_data example_record] l b f n
  show ?thesis by auto
qed

text \<open>
  Claim C1 as stated fails in what the error says: the entry of the buffer has the
  tag 245 and reports a field beyond the data; the error that the decoder returns
  does not name the tag.
\<close>

theorem bounds_error_does_not_name_tag:
  "take 3 overlong_entry = ''245''
   \<and> scanIntoRecord overlong_buffer
       = Inr (\<lparr>Data = overlong_buffer, Fields = [], Leader = example_leader\<rparr>,
              Some ''Reported field length incorrect'')
   \<and> \<not> occurs_in ''245'' ''Reported field length incorrect''"
  by code_simp

lemma dirEntry_take: "12 \<le> n \<Longrightarrow> dirEntry data (take n dirs) = dirEntry data dirs"
  by (simp add: dirEntry_def slice_take min_def cong: option.case_cong)

lemma scanDirs_whole_entries:
  "scanDirs data (take (12 * (length dirs div 12)) dirs) rec = scanDirs data dirs rec"
proof (induction data dirs rec rule: scanDirs.induct)
  case (1 data dirs rec)
  let ?k = "length dirs div 12"
  show ?case
  proof (cases "length dirs \<ge> 12")
    case False
    then show ?thesis
      by (simp add: scanDirs.simps [of data dirs rec] scanDirs.simps [of data "[]" rec])
  next
    case True
    then have k: "1 \<le> ?k" by (simp add: Suc_le_eq div_greater_zero_iff)
    then have n: "12 \<le> 12 * ?k" by simp
    have le: "12 * ?k \<le> length dirs" by simp
    have len: "length (take (12 * ?k) dirs) \<ge> 12" using n le by simp
    have d: "drop 12 (take (12 * ?k) dirs)
               = take (12 * (length (drop 12 dirs) div 12)) (drop 12 dirs)"
    proof -
      have "(length dirs - 12) div 12 = ?k - 1"
        using True le_div_geq [of 12 "length dirs"] by simp
      then have "length (drop 12 dirs) div 12 = ?k - 1" by simp
      then show ?thesis using k by (simp add: drop_take right_diff_distrib')
    qed
    show ?thesis
    proof (cases "dirEntry data dirs")
      case (Inl p)
      then show ?thesis using True len n
        by (simp add: scanDirs.simps [of data dirs rec]
              scanDirs.simps [of data "take (12 * ?k) dirs" rec] dirEntry_take
              del: length_take)
    next
      case (Inr x)
      show ?thesis
      proof (cases x)
        case (Inl msg)
        with Inr show ?thesis using True len n
          by (simp add: scanDirs.simps [of data dirs rec]
                scanDirs.simps [of data "take (12 * ?k) dirs" rec] dirEntry_take
                del: length_take)
      next
        case (Inr f)
        with \<open>dirEntry data dirs = Inr x\<close> have e: "dirEntry data dirs = Inr (Inr f)"
          by simp
        have "scanDirs data (take (12 * ?k) dirs) rec
            = scanDirs data (drop 12 (take (12 * ?k) dirs)) (rec\<lparr>Fields := Fields rec @ [f]\<rparr>)"
          using len n e
          by (simp add: scanDirs.simps [of data "take (12 * ?k) dirs" rec] dirEntry_take
                del: length_take)
        also have "\<dots> = scanDirs data (drop 12 dirs) (rec\<lparr>Fields := Fields rec @ [f]\<rparr>)"
          using "1.IH" [OF True e] d by simp
        also have "\<dots> = scanDirs data dirs rec"
          using True e by (simp add: scanDirs.simps [of data dirs rec])
        finally show ?thesis .
      qed
    qed
  qed
qed

lemma makeDataField_loop_error:
  "makeDataField_loop segs d = (d', Some msg) \<Longrightarrow> msg = ''Extraneous field terminator''"
  by (induction segs d rule: makeDataField_loop.induct) auto

lemma makeDataField_error:
  assumes "makeDataField tag data = (d, Some msg)"
  shows "msg \<in> set decode_errors"
proof (cases "2 < length data")
  case True
  with assms have "msg = ''Extraneous field terminator''"
    by (simp add: makeDataField_def Let_def makeDataField_loop_error)
  then show ?thesis by (simp add: decode_errors_def)
next
  case False
  with assms have "msg = ''Invalid Indicators detected''"
    by (simp add: makeDataField_def Let_def)
  then show ?thesis by (simp add: decode_errors_def)
qed

lemma dirEntry_error:
  assumes "dirEntry data dirs = Inr (Inl msg)"
  shows "msg \<in> set decode_errors"
proof -
  have known: "''Could not determine length of field'' \<in> set decode_errors"
    "''Could not determine field start'' \<in> set decode_errors"
    "''Reported field length incorrect'' \<in> set decode_errors"
    by (simp_all add: decode_errors_def)
  show ?thesis
  proof (cases "Atoi (slice dirs 3 7)")
    case None
    with assms have "msg = ''Could not determine length of field''"
      by (simp add: dirEntry_def)
    with known show ?thesis by simp
  next
    case (Some len)
    note len = this
    show ?thesis
    proof (cases "Atoi (slice dirs 7 12)")
      case None
      with assms len have "msg = ''Could not determine field start''"
        by (simp add: dirEntry_def)
      with known show ?thesis by simp
    next
      case (Some start)
      note start = this
      show ?thesis
      proof (cases "int (length data) \<le> start + len - 1")
        case True
        with assms len start have "msg = ''Reported field length incorrect''"
          by (simp add: dirEntry_def)
        with known show ?thesis by simp
      next
        case False
        let ?fdata = "slice data (nat start) (nat (start + len - 1))"
        from assms len start False
        have "\<exists>df. makeDataField (take 3 dirs) ?fdata = (df, Some msg)"
          by (simp add: dirEntry_def Let_def split: if_splits prod.splits option.splits)
        then show ?thesis by (auto dest: makeDataField_error)
      qed
    qed
  qed
qed

lemma scanDirs_error:
  "scanDirs data dirs rec = Inr (rec', Some msg) \<Longrightarrow> msg \<in> set decode_errors"
proof (induction data dirs rec rule: scanDirs.induct)
  case (1 data dirs rec)
  show ?case
  proof (cases "length dirs \<ge> 12")
    case False
    with "1.prems" show ?thesis by (simp add: scanDirs.simps [of data dirs rec])
  next
    case True
    show ?thesis
    proof (cases "dirEntry data dirs")
      case (Inl p)
      with True "1.prems" show ?thesis by (simp add: scanDirs.simps [of data dirs rec])
    next
      case (Inr x)
      show ?thesis
      proof (cases x)
        case (Inl m)
        with Inr True "1.prems" have "m = msg"
          by (simp add: scanDirs.simps [of data dirs rec])
        with Inl Inr dirEntry_error [of data dirs msg] show ?thesis by simp
      next
        case (Inr f)
        with \<open>dirEntry data dirs = Inr x\<close> have e: "dirEntry data dirs = Inr (Inr f)"
          by simp
        from e True "1.prems"
        have "scanDirs data (drop 12 dirs) (rec\<lparr>Fields := Fields rec @ [f]\<rparr>)
                = Inr (rec', Some msg)"
          by (simp add: scanDirs.simps [of data dirs rec])
        then show ?thesis using "1.IH" [OF True e] by simp
      qed
    qed
  qed
qed

lemma scanIntoRecord_error:
  assumes "scanIntoRecord bytes = Inr (rec, Some msg)"
  shows "msg \<in> set decode_errors"
proof (cases "Atoi (slice bytes 12 17)")
  case None
  with assms have "msg = ''Could not determine record start''"
    by (simp add: scanIntoRecord_def Let_def split: if_splits)
  then show ?thesis by (simp add: decode_errors_def)
next
  case (Some start)
  with assms have "\<exists>data dirs rec0. scanDirs data dirs rec0 = Inr (rec, Some msg)"
    by (auto simp: scanIntoRecord_def Let_def split: if_splits)
  then show ?thesis by (auto dest: scanDirs_error)
qed

lemma scanIntoRecord_whole_entries:
  assumes "20 \<le> length bytes" "Atoi (slice bytes 12 17) = Some start"
    "25 \<le> start" "start \<le> int (length bytes)"
  shows "\<exists>rec0. Data rec0 = bytes \<and> Fields rec0 = []
           \<and> scanIntoRecord bytes
               = scanDirs (drop (nat start) bytes)
                   (take (12 * (length (slice bytes 24 (nat (start - 1))) div 12))
                      (slice bytes 24 (nat (start - 1)))) rec0"
proof -
  let ?rec0 = "\<lparr>Data = bytes, Fields = [],
                 Leader = \<lparr>Status = bytes ! 5, Type = bytes ! 6, BibLevel = bytes ! 7,
                            Control = bytes ! 8, EncodingLevel = bytes ! 17,
                            Form = bytes ! 18, Multipart = bytes ! 19\<rparr>\<rparr>"
  have "scanIntoRecord bytes
          = scanDirs (drop (nat start) bytes)
              (take (12 * (length (slice bytes 24 (nat (start - 1))) div 12))
                 (slice bytes 24 (nat (start - 1)))) ?rec0"
    using assms by (simp add: scanIntoRecord_def Let_def scanDirs_whole_entries)
  then show ?thesis by (intro exI [of _ ?rec0]) simp
qed

text \<open>
  Claim C3, as the code has it. The loop runs while at least 12 bytes of the
  directory remain and then returns without an error, so a dangling entry of fewer
  than 12 bytes is ignored: decoding a directory gives what decoding its whole
  12-byte entries gives, a directory of fewer than 12 bytes gives the record
  unchanged and no error, every error that the decoder returns carries one of six
  messages, none of them about the length of the directory, and decoding a record
  buffer with a base address in range is the loop over the whole 12-byte entries of
  its directory span, bytes 24 to base address - 2.
\<close>

theorem partial_directory_entry_is_ignored:
  "scanDirs data dirs rec = scanDirs data (take (12 * (length dirs div 12)) dirs) rec
   \<and> (length dirs < 12 \<longrightarrow> scanDirs data dirs rec = Inr (rec, None))
   \<and> (\<forall>rec' msg. scanIntoRecord bytes = Inr (rec', Some msg) \<longrightarrow> msg \<in> set decode_errors)
   \<and> (20 \<le> length bytes \<and> Atoi (slice bytes 12 17) = Some start
        \<and> 25 \<le> start \<and> start \<le> int (length bytes)
        \<longrightarrow> (\<exists>rec0. Data rec0 = bytes \<and> Fields rec0 = []
               \<and> scanIntoRecord bytes
                   = scanDirs (drop (nat start) bytes)
                       (take (12 * (length (slice bytes 24 (nat (start - 1))) div 12))
                          (slice bytes 24 (nat (start - 1)))) rec0))"
proof (intro conjI impI allI)
  show "scanDirs data dirs rec = scanDirs data (take (12 * (length dirs div 12)) dirs) rec"
    by (simp add: scanDirs_whole_entries)
next
  assume "length dirs < 12"
  then show "scanDirs data dirs rec = Inr (rec, None)"
    by (simp add: scanDirs.simps [of data dirs rec])
next
  fix rec' msg
  assume "scanIntoRecord bytes = Inr (rec', Some msg)"
  then show "msg \<in> set decode_errors" by (rule scanIntoRecord_error)
next
  assume "20 \<le> length bytes \<and> Atoi (slice bytes 12 17) = Some start
        \<and> 25 \<le> start \<and> start \<le> int (length bytes)"
  then show "\<exists>rec0. Data rec0 = bytes \<and> Fields rec0 = []
               \<and> scanIntoRecord bytes
                   = scanDirs (drop (nat start) bytes)
                       (take (12 * (length (slice bytes 24 (nat (start - 1))) div 12))
                          (slice bytes 24 (nat (start - 1)))) rec0"
    using scanIntoRecord_whole_entries [of bytes start] by blast
qed

theorem partial_directory_entry_is_ignored_witness:
  "length ''24500'' < (12::nat)
   \<and> scanDirs ''x'' ''24500'' example_record = Inr (example_record, None)
   \<and> scanIntoRecord overlong_buffer
       = Inr (\<lparr>Data = overlong_buffer, Fields = [], Leader = example_leader\<rparr>,
              Some ''Reported field length incorrect'')
   \<and> ''Reported field length incorrect'' \<in> set decode_errors
   \<and> Atoi (slice partial_directory_buffer 12 17) = Some 30
   \<and> (\<exists>rec0. Data rec0 = partial_directory_buffer \<and> Fields rec0 = []
         \<and> scanIntoRecord partial_directory_buffer
             = scanDirs (drop (nat 30) partial_directory_buffer)
                 (take (12 * (length (slice partial_directory_buffer 24 (nat (30 - 1))) div 12))
                    (slice partial_directory_buffer 24 (nat (30 - 1)))) rec0)"
proof -
  have e: "scanIntoRecord overlong_buffer
             = Inr (\<lparr>Data = overlong_buffer, Fields = [], Leader = example_leader\<rparr>,
                    Some ''Reported field length incorrect'')"
    by code_simp
  have a: "Atoi (slice partial_directory_buffer 12 17) = Some 30"
    by (simp add: partial_directory_buffer_def slice_def Atoi_def is_digit_def)
  have n: "20 \<le> length partial_directory_buffer" "(25::int) \<le> 30"
    "(30::int) \<le> int (length partial_directory_buffer)"
    by (simp_all add: partial_directory_buffer_def)
  have l: "length ''24500'' < (12::nat)" by simp
  note t = partial_directory_entry_is_ignored
             [of "''x''" "''24500''" example_record overlong_buffer 30]
  from t l have 1: "scanDirs ''x'' ''24500'' example_record = Inr (example_record, None)"
    by blast
  from t e have 2: "''Reported field length incorrect'' \<in> set decode_errors"
    by blast
  from partial_directory_entry_is_ignored
         [of "''x''" "''24500''" example_record partial_directory_buffer 30] a n
  have 3: "\<exists>rec0. Data rec0 = partial_directory_buffer \<and> Fields rec0 = []
         \<and> scanIntoRecord partial_directory_buffer
             = scanDirs (drop (nat 30) partial_directory_buffer)
                 (take (12 * (length (slice partial_directory_buffer 24 (nat (30 - 1))) div 12))
                    (slice partial_directory_buffer 24 (nat (30 - 1)))) rec0"
    by blast
  from l 1 e 2 a 3 show ?thesis by blast
qed

text \<open>
  Claim C3 as stated fails: the directory span of the buffer has five bytes, not a
  multiple of 12, and the decoder returns a record and no error.
\<close>

theorem partial_directory_entry_no_error:
  "Atoi (slice partial_directory_buffer 12 17) = Some 30
   \<and> length (slice partial_directory_buffer 24 (30 - 1)) mod 12 = 5
   \<and> scanIntoRecord partial_directory_buffer
       = Inr (\<lparr>Data = partial_directory_buffer, Fields = [], Leader = example_leader\<rparr>, None)"
  by code_simp

lemma string_of_byte_nonempty: "string_of_byte c \<noteq> []"
  by (simp add: string_of_byte_def Let_def)

lemma makeDataField_loop_empty_segment:
  "[] \<in> set segs \<Longrightarrow> \<exists>d'. makeDataField_loop segs d = (d', Some ''Extraneous field terminator'')"
  by (induction segs d rule: makeDataField_loop.induct) auto

lemma makeDataField_loop_ok:
  "makeDataField_loop segs d = (d', None) \<Longrightarrow>
     [] \<notin> set segs
     \<and> SubFields d' = SubFields d
         @ map (\<lambda>seg. \<lparr>Code = string_of_byte (hd seg), Value = tl seg\<rparr>) segs"
  by (induction segs d rule: makeDataField_loop.induct) auto

lemma makeDataField_ok:
  assumes "makeDataField tag data = (d, None)"
  shows "[] \<notin> set (Split (drop 3 data) st)"
    and "SubFields d = map (\<lambda>seg. \<lparr>Code = string_of_byte (hd seg), Value = tl seg\<rparr>)
                         (Split (drop 3 data) st)"
  using assms makeDataField_loop_ok [of "Split (drop 3 data) st" _ d]
  by (auto simp: makeDataField_def Let_def split: if_splits)

lemma makeDataField_codes:
  assumes "makeDataField tag data = (d, None)" "sf \<in> set (SubFields d)"
  shows "Code sf \<noteq> []"
  using assms makeDataField_ok(2) [OF assms(1)] by (auto simp: string_of_byte_nonempty)

lemma makeDataField_empty_segment:
  assumes "[] \<in> set (Split (drop 3 data) st)"
  shows "\<exists>d msg. makeDataField tag data = (d, Some msg)"
proof (cases "2 < length data")
  case True
  from makeDataField_loop_empty_segment [OF assms]
  obtain d' where "makeDataField_loop (Split (drop 3 data) st)
      \<lparr>Indicator1 = string_of_byte (data ! 0), Indicator2 = string_of_byte (data ! 1),
         Tag = tag, SubFields = []\<rparr> = (d', Some ''Extraneous field terminator'')"
    by blast
  with True show ?thesis by (simp add: makeDataField_def Let_def)
next
  case False
  then show ?thesis by (simp add: makeDataField_def Let_def)
qed

lemma makeDataField_extraneous:
  assumes "[] \<in> set (Split (drop 3 data) st)" "2 < length data"
  shows "\<exists>d. makeDataField tag data = (d, Some ''Extraneous field terminator'')"
proof -
  from makeDataField_loop_empty_segment [OF assms(1)]
  obtain d' where "makeDataField_loop (Split (drop 3 data) st)
      \<lparr>Indicator1 = string_of_byte (data ! 0), Indicator2 = string_of_byte (data ! 1),
         Tag = tag, SubFields = []\<rparr> = (d', Some ''Extraneous field terminator'')"
    by blast
  with assms(2) show ?thesis by (simp add: makeDataField_def Let_def)
qed

lemma dirEntry_codes:
  "dirEntry data dirs = Inr (Inr f) \<Longrightarrow> codes_nonempty f"
  by (auto simp: dirEntry_def Let_def codes_nonempty_def list_all_iff makeDataField_codes
           split: option.splits if_splits prod.splits)

lemma scanDirs_codes:
  "scanDirs data dirs rec = Inr (rec', err) \<Longrightarrow> list_all codes_nonempty (Fields rec)
     \<Longrightarrow> list_all codes_nonempty (Fields rec')"
proof (induction data dirs rec rule: scanDirs.induct)
  case (1 data dirs rec)
  show ?case
  proof (cases "length dirs \<ge> 12")
    case False
    with "1.prems" show ?thesis by (simp add: scanDirs.simps [of data dirs rec])
  next
    case True
    show ?thesis
    proof (cases "dirEntry data dirs")
      case (Inl p)
      with True "1.prems" show ?thesis by (simp add: scanDirs.simps [of data dirs rec])
    next
      case (Inr x)
      show ?thesis
      proof (cases x)
        case (Inl msg)
        with Inr True "1.prems" show ?thesis
          by (simp add: scanDirs.simps [of data dirs rec])
      next
        case (Inr f)
        with \<open>dirEntry data dirs = Inr x\<close> have e: "dirEntry data dirs = Inr (Inr f)"
          by simp
        from e True "1.prems"(1)
        have "scanDirs data (drop 12 dirs) (rec\<lparr>Fields := Fields rec @ [f]\<rparr>)
                = Inr (rec', err)"
          by (simp add: scanDirs.simps [of data dirs rec])
        moreover have "list_all codes_nonempty (Fields (rec\<lparr>Fields := Fields rec @ [f]\<rparr>))"
          using "1.prems"(2) dirEntry_codes [OF e] by simp
        ultimately show ?thesis using "1.IH" [OF True e] by simp
      qed
    qed
  qed
qed

lemma scanIntoRecord_codes:
  assumes "scanIntoRecord bytes = Inr (rec, err)"
  shows "list_all codes_nonempty (Fields rec)"
  using assms
  by (auto simp: scanIntoRecord_def Let_def split: if_splits option.splits
           dest!: scanDirs_codes)

text \<open>
  Claim C7. When a segment of \<^verbatim>\<open>bytes.Split(data[3:], st)\<close> is empty,
  \<^verbatim>\<open>makeDataField\<close> returns an error (for a content of more than two bytes the error
  "Extraneous field terminator"); when it returns no error, no segment is empty and
  every subfield has a code of at least one character; and every subfield of every
  data field of a record that \<^verbatim>\<open>scanIntoRecord\<close> returns has such a code.
\<close>

theorem empty_subfield_is_decode_error:
  "([] \<in> set (Split (drop 3 data) st) \<longrightarrow> (\<exists>d msg. makeDataField tag data = (d, Some msg)))
   \<and> ([] \<in> set (Split (drop 3 data) st) \<and> 2 < length data
        \<longrightarrow> (\<exists>d. makeDataField tag data = (d, Some ''Extraneous field terminator'')))
   \<and> (\<forall>d. makeDataField tag data = (d, None) \<longrightarrow>
          [] \<notin> set (Split (drop 3 data) st) \<and> (\<forall>sf \<in> set (SubFields d). Code sf \<noteq> []))
   \<and> (\<forall>rec err d sf. scanIntoRecord bytes = Inr (rec, err)
          \<longrightarrow> IsDataField d \<in> set (Fields rec)
          \<longrightarrow> sf \<in> set (SubFields d) \<longrightarrow> Code sf \<noteq> [])"
proof (intro conjI allI impI ballI)
  assume "[] \<in> set (Split (drop 3 data) st)"
  then show "\<exists>d msg. makeDataField tag data = (d, Some msg)"
    by (rule makeDataField_empty_segment)
next
  assume "[] \<in> set (Split (drop 3 data) st) \<and> 2 < length data"
  then show "\<exists>d. makeDataField tag data = (d, Some ''Extraneous field terminator'')"
    by (simp add: makeDataField_extraneous)
next
  fix d assume "makeDataField tag data = (d, None)"
  then show "[] \<notin> set (Split (drop 3 data) st)" by (rule makeDataField_ok(1))
next
  fix d sf assume "makeDataField tag data = (d, None)" "sf \<in> set (SubFields d)"
  then show "Code sf \<noteq> []" by (rule makeDataField_codes)
next
  fix rec err d sf
  assume "scanIntoRecord bytes = Inr (rec, err)" "IsDataField d \<in> set (Fields rec)"
    "sf \<in> set (SubFields d)"
  then show "Code sf \<noteq> []"
    using scanIntoRecord_codes [of bytes rec err]
    by (auto simp: list_all_iff codes_nonempty_def split: Field.splits)
qed

theorem empty_subfield_is_decode_error_witness:
  "[] \<in> set (Split (drop 3 dangling_field) st) \<and> 2 < length dangling_field
   \<and> (\<exists>d. makeDataField ''245'' dangling_field = (d, Some ''Extraneous field terminator''))
   \<and> makeDataField ''245'' title_field
       = (\<lparr>Indicator1 = ''1'', Indicator2 = ''0'', Tag = ''245'',
            SubFields = [\<lparr>Code = ''a'', Value = ''Tomb of Annihilation''\<rparr>]\<rparr>, None)
   \<and> [] \<notin> set (Split (drop 3 title_field) st)
   \<and> Code \<lparr>Code = ''a'', Value = ''Tomb of Annihilation''\<rparr> \<noteq> []
   \<and> scanIntoRecord example_buffer = Inr (example_record, None)
   \<and> Code \<lparr>Code = ''x'', Value = ''Poetry.''\<rparr> \<noteq> []"
proof -
  have seg: "[] \<in> set (Split (drop 3 dangling_field) st)" "2 < length dangling_field"
    by (simp_all add: dangling_field_def st_def)
  have ok: "makeDataField ''245'' title_field
       = (\<lparr>Indicator1 = ''1'', Indicator2 = ''0'', Tag = ''245'',
            SubFields = [\<lparr>Code = ''a'', Value = ''Tomb of Annihilation''\<rparr>]\<rparr>, None)"
    by code_simp
  have dec: "scanIntoRecord example_buffer = Inr (example_record, None)"
    by code_simp
  have mem: "IsDataField \<lparr>Indicator1 = '' '', Indicator2 = ''0'', Tag = ''650'',
         SubFields = [\<lparr>Code = ''a'', Value = ''Cats''\<rparr>,
                      \<lparr>Code = ''x'', Value = ''Poetry.''\<rparr>]\<rparr> \<in> set (Fields example_record)"
    by (simp add: example_record_def example_fields_def example_subject1_def)
  from empty_subfield_is_decode_error [of dangling_field "''245''" example_buffer]
  have 1: "\<exists>d. makeDataField ''245'' dangling_field = (d, Some ''Extraneous field terminator'')"
    using seg by blast
  from empty_subfield_is_decode_error [of title_field "''245''" example_buffer] ok
  have 2: "[] \<notin> set (Split (drop 3 title_field) st)"
    by blast
  from empty_subfield_is_decode_error [of title_field "''245''" example_buffer] dec mem
  have 3: "Code \<lparr>Code = ''x'', Value = ''Poetry.''\<rparr> \<noteq> []"
    by simp
  from seg 1 ok 2 dec 3 show ?thesis by simp
qed

section \<open>Properties of the filter\<close>

lemma Filter_query_ok:
  "pipe_in_range q \<Longrightarrow> \<exists>x. Filter_query q = Inr x"
  by (auto simp: pipe_in_range_def Filter_query_def Let_def)

lemma Filter_query_panics:
  "\<not> pipe_in_range q \<Longrightarrow> \<exists>p. Filter_query q = Inl p"
  by (auto simp: pipe_in_range_def Filter_query_def Let_def)

lemma Filter_field_ok:
  "pipe_in_range q \<Longrightarrow> \<exists>vs. Filter_field q tag f = Inr vs"
  by (cases f) (auto simp: Let_def dest!: Filter_query_ok)

lemma Filter_fields_ok:
  "pipe_in_range q \<Longrightarrow> \<exists>res'. Filter_fields q tag fs res = Inr res'"
proof (induction fs arbitrary: res)
  case Nil
  then show ?case by simp
next
  case (Cons f fs)
  from Filter_field_ok [OF Cons.prems, of tag f] obtain vs where "Filter_field q tag f = Inr vs" ..
  with Cons.IH [OF Cons.prems, of "res @ vs"] show ?case by simp
qed

lemma Filter_queries_ok:
  "\<forall>q \<in> set qs. 3 \<le> length q \<and> pipe_in_range q \<Longrightarrow> \<exists>res'. Filter_queries r qs res = Inr res'"
proof (induction qs arbitrary: res)
  case Nil
  then show ?case by simp
next
  case (Cons q qs)
  then have q: "3 \<le> length q" "pipe_in_range q" by simp_all
  from Filter_fields_ok [OF q(2), of "take 3 q" "Fields r" res]
  obtain res' where "Filter_fields q (take 3 q) (Fields r) res = Inr res'" ..
  with q Cons.IH [of res'] Cons.prems show ?case by simp
qed

lemma Filter_queries_short:
  "q \<in> set qs \<Longrightarrow> length q < 3 \<Longrightarrow> \<exists>p. Filter_queries r qs res = Inl p"
proof (induction qs arbitrary: res)
  case Nil
  then show ?case by simp
next
  case (Cons q' qs)
  show ?case
  proof (cases "length q' < 3")
    case True
    then show ?thesis by simp
  next
    case False
    with Cons.prems have "q \<in> set qs" by auto
    from Cons.IH [OF this Cons.prems(2)] False show ?thesis
      by (auto split: sum.splits)
  qed
qed

lemma Filter_fields_pipe_panics:
  "\<not> pipe_in_range q \<Longrightarrow> IsDataField d \<in> set fs \<Longrightarrow> \<exists>p. Filter_fields q tag fs res = Inl p"
proof (induction fs arbitrary: res)
  case Nil
  then show ?case by simp
next
  case (Cons f fs)
  show ?case
  proof (cases f)
    case (IsControlField c)
    with Cons.prems have "IsDataField d \<in> set fs" by auto
    from Cons.IH [OF Cons.prems(1) this] IsControlField show ?thesis by simp
  next
    case (IsDataField d')
    with Filter_query_panics [OF Cons.prems(1)] show ?thesis by auto
  qed
qed

lemma Filter_queries_pipe_panics:
  "q \<in> set qs \<Longrightarrow> \<not> pipe_in_range q \<Longrightarrow> IsDataField d \<in> set (Fields r)
     \<Longrightarrow> \<exists>p. Filter_queries r qs res = Inl p"
proof (induction qs arbitrary: res)
  case Nil
  then show ?case by simp
next
  case (Cons q' qs)
  show ?case
  proof (cases "q' = q")
    case True
    from Filter_fields_pipe_panics [OF Cons.prems(2,3), of "take 3 q" res] True
    show ?thesis by auto
  next
    case False
    with Cons.prems have "q \<in> set qs" by auto
    from Cons.IH [OF this Cons.prems(2,3)] show ?thesis
      by (auto split: sum.splits)
  qed
qed

lemma Filter_field_other_tag:
  "Filter_query q = Inr x \<Longrightarrow> field_tag f \<noteq> tag \<Longrightarrow> Filter_field q tag f = Inr []"
  by (cases f) (auto simp: field_tag_def DataField_matches_def split: prod.splits)

lemma Filter_fields_only_tag:
  "Filter_query q = Inr x \<Longrightarrow>
   Filter_fields q tag fs res = Filter_fields q tag (filter (\<lambda>f. field_tag f = tag) fs) res"
  by (induction fs arbitrary: res) (auto simp: Filter_field_other_tag split: sum.splits)

lemma Filter_field_no_empty_group:
  "Filter_field q tag f = Inr vs \<Longrightarrow> [] \<notin> set vs"
  by (cases f) (auto simp: Let_def split: sum.splits if_splits prod.splits)

lemma Filter_fields_no_empty_group:
  "Filter_fields q tag fs res = Inr res' \<Longrightarrow> [] \<notin> set res \<Longrightarrow> [] \<notin> set res'"
proof (induction fs arbitrary: res)
  case Nil
  then show ?case by simp
next
  case (Cons f fs)
  from Cons.prems(1) obtain vs where vs: "Filter_field q tag f = Inr vs"
    and r: "Filter_fields q tag fs (res @ vs) = Inr res'"
    by (auto split: sum.splits)
  from Filter_field_no_empty_group [OF vs] Cons.prems(2) have "[] \<notin> set (res @ vs)" by simp
  from Cons.IH [OF r this] show ?case .
qed

lemma Filter_queries_no_empty_group:
  "Filter_queries r qs res = Inr res' \<Longrightarrow> [] \<notin> set res \<Longrightarrow> [] \<notin> set res'"
proof (induction qs arbitrary: res)
  case Nil
  then show ?case by simp
next
  case (Cons q qs)
  from Cons.prems(1) obtain res1 where a: "Filter_fields q (take 3 q) (Fields r) res = Inr res1"
    and b: "Filter_queries r qs res1 = Inr res'"
    by (auto split: sum.splits if_splits)
  from Cons.IH [OF b Filter_fields_no_empty_group [OF a Cons.prems(2)]] show ?case .
qed

lemma explode_single: "strings_explode [c] = [[c]]"
  by simp

lemma Filter_fields_one_code:
  assumes "IndexByte q (CHR ''|'') = -1" "drop 3 q = [c]" "Tag d = tag"
  shows "Filter_field q tag (IsDataField d)
          = Inr (if \<exists>sf \<in> set (SubFields d). Code sf = [c]
                 then [map Value (filter (\<lambda>sf. Code sf = [c]) (SubFields d))] else [])"
  using assms
  by (auto simp: Filter_query_def DataField_matches_def DataField_SubField_concat filter_empty_conv)

lemma Filter_scenario:
  assumes t: "filter (\<lambda>f. field_tag f = ''245'') (Fields r) = [IsDataField t]"
    and s: "filter (\<lambda>f. field_tag f = ''650'') (Fields r) = [IsDataField s1, IsDataField s2]"
    and n: "filter (\<lambda>f. field_tag f = ''100'') (Fields r) = []"
    and x1: "\<exists>sf \<in> set (SubFields s1). Code sf = ''x''"
    and x2: "\<exists>sf \<in> set (SubFields s2). Code sf = ''x''"
  shows "Record_Filter r [''245a'', ''650x'', ''100'']
     = Inr ((if \<exists>sf \<in> set (SubFields t). Code sf = ''a''
             then [map Value (filter (\<lambda>sf. Code sf = ''a'') (SubFields t))] else [])
            @ [map Value (filter (\<lambda>sf. Code sf = ''x'') (SubFields s1)),
               map Value (filter (\<lambda>sf. Code sf = ''x'') (SubFields s2))])"
proof -
  have tt: "Tag t = ''245''" "Tag s1 = ''650''" "Tag s2 = ''650''"
  proof -
    have "IsDataField t \<in> set (filter (\<lambda>f. field_tag f = ''245'') (Fields r))" using t by simp
    then show "Tag t = ''245''" by (simp add: field_tag_def)
    have "IsDataField s1 \<in> set (filter (\<lambda>f. field_tag f = ''650'') (Fields r))" using s by simp
    then show "Tag s1 = ''650''" by (simp add: field_tag_def)
    have "IsDataField s2 \<in> set (filter (\<lambda>f. field_tag f = ''650'') (Fields r))" using s by simp
    then show "Tag s2 = ''650''" by (simp add: field_tag_def)
  qed
  have q1: "Filter_query ''245a'' = Inr (''*'', ''*'', ''a'')"
    and q2: "Filter_query ''650x'' = Inr (''*'', ''*'', ''x'')"
    and q3: "Filter_query ''100'' = Inr (''*'', ''*'', [])"
    by (simp_all add: Filter_query_def)
  have f1: "Filter_fields ''245a'' ''245'' (Fields r) [] 
     = Inr (if \<exists>sf \<in> set (SubFields t). Code sf = ''a''
             then [map Value (filter (\<lambda>sf. Code sf = ''a'') (SubFields t))] else [])"
    (is "_ = Inr ?g1")
    using Filter_fields_only_tag [OF q1, of "''245''" "Fields r" "[]"] t tt
       Filter_fields_one_code [of "''245a''" "CHR ''a''" t "''245''"]
    by simp
  have f2: "Filter_fields ''650x'' ''650'' (Fields r) ?g1
     = Inr (?g1 @ [map Value (filter (\<lambda>sf. Code sf = ''x'') (SubFields s1)),
               map Value (filter (\<lambda>sf. Code sf = ''x'') (SubFields s2))])"
    (is "_ = Inr ?g2")
    using Filter_fields_only_tag [OF q2, of "''650''" "Fields r" ?g1] s tt x1 x2
       Filter_fields_one_code [of "''650x''" "CHR ''x''" s1 "''650''"]
       Filter_fields_one_code [of "''650x''" "CHR ''x''" s2 "''650''"]
    by simp
  have f3: "Filter_fields ''100'' ''100'' (Fields r) ?g2 = Inr ?g2"
    using Filter_fields_only_tag [OF q3, of "''100''" "Fields r" ?g2] n by simp
  show ?thesis
    unfolding Record_Filter_def using f1 f2 f3 by simp
qed

lemma Record_Filter_no_empty_group:
  "Record_Filter r qs = Inr res \<Longrightarrow> [] \<notin> set res"
  using Filter_queries_no_empty_group [of r qs "[]" res] by (simp add: Record_Filter_def)

text \<open>
  Claim C5, as the code has it. On a record whose only field with the tag 245 is one
  data field, whose fields with the tag 650 are two data fields that each have an
  \<open>x\<close> subfield, and which has no field with the tag 100, the call
  \<^verbatim>\<open>Filter("245a", "650x", "100")\<close> returns, with no panic, one group for each
  matching field that has a selected subfield, in the order of the queries and then
  of the record: the \<open>a\<close> values of the 245 field when it has an \<open>a\<close> subfield,
  then the \<open>x\<close> values of the first 650 field, then those of the second. The absent
  tag 100 adds no group: no result of \<^verbatim>\<open>Filter\<close> holds an empty group.
\<close>

theorem Filter_groups_per_field_instance:
  assumes "filter (\<lambda>f. field_tag f = ''245'') (Fields r) = [IsDataField t]"
    and "filter (\<lambda>f. field_tag f = ''650'') (Fields r) = [IsDataField s1, IsDataField s2]"
    and "filter (\<lambda>f. field_tag f = ''100'') (Fields r) = []"
    and "\<exists>sf \<in> set (SubFields s1). Code sf = ''x''"
    and "\<exists>sf \<in> set (SubFields s2). Code sf = ''x''"
  shows "Record_Filter r [''245a'', ''650x'', ''100'']
     = Inr ((if \<exists>sf \<in> set (SubFields t). Code sf = ''a''
             then [map Value (filter (\<lambda>sf. Code sf = ''a'') (SubFields t))] else [])
            @ [map Value (filter (\<lambda>sf. Code sf = ''x'') (SubFields s1)),
               map Value (filter (\<lambda>sf. Code sf = ''x'') (SubFields s2))])
     \<and> (\<forall>qs res. Record_Filter r qs = Inr res \<longrightarrow> [] \<notin> set res)"
  using Filter_scenario [OF assms] Record_Filter_no_empty_group by blast

theorem Filter_groups_per_field_instance_witness:
  "filter (\<lambda>f. field_tag f = ''245'') (Fields example_record) = [IsDataField example_title]
   \<and> filter (\<lambda>f. field_tag f = ''650'') (Fields example_record)
       = [IsDataField example_subject1, IsDataField example_subject2]
   \<and> filter (\<lambda>f. field_tag f = ''100'') (Fields example_record) = []
   \<and> Record_Filter example_record [''245a'', ''650x'', ''100'']
       = Inr [[''Tomb of Annihilation''], [''Poetry.''], [''Fiction.'']]"
proof -
  have t: "filter (\<lambda>f. field_tag f = ''245'') (Fields example_record) = [IsDataField example_title]"
    and s: "filter (\<lambda>f. field_tag f = ''650'') (Fields example_record)
       = [IsDataField example_subject1, IsDataField example_subject2]"
    and n: "filter (\<lambda>f. field_tag f = ''100'') (Fields example_record) = []"
    by (simp_all add: example_record_def example_fields_def field_tag_def example_control_def
          example_title_def example_subject1_def example_subject2_def)
  have x1: "\<exists>sf \<in> set (SubFields example_subject1). Code sf = ''x''"
    by (simp add: example_subject1_def)
  have x2: "\<exists>sf \<in> set (SubFields example_subject2). Code sf = ''x''"
    by (simp add: example_subject2_def)
  have a: "\<exists>sf \<in> set (SubFields example_title). Code sf = ''a''"
    by (simp add: example_title_def)
  have v: "map Value (filter (\<lambda>sf. Code sf = ''a'') (SubFields example_title)) = [''Tomb of Annihilation'']"
    "map Value (filter (\<lambda>sf. Code sf = ''x'') (SubFields example_subject1)) = [''Poetry.'']"
    "map Value (filter (\<lambda>sf. Code sf = ''x'') (SubFields example_subject2)) = [''Fiction.'']"
    by (simp_all add: example_title_def example_subject1_def example_subject2_def)
  from Filter_groups_per_field_instance [OF t s n x1 x2]
  have "Record_Filter example_record [''245a'', ''650x'', ''100'']
       = Inr [[''Tomb of Annihilation''], [''Poetry.''], [''Fiction.'']]"
    using a v by simp
  with t s n show ?thesis by simp
qed

text \<open>
  Claim C5 as stated fails: on the example record the result has three groups, one
  for the 245 field and one for each 650 field; the third group is the \<open>x\<close> value of
  the second 650 field and is not empty, and no group stands for the absent tag 100.
\<close>

theorem Filter_third_group_not_empty:
  "Record_Filter example_record [''245a'', ''650x'', ''100'']
     = Inr [[''Tomb of Annihilation''], [''Poetry.''], [''Fiction.'']]
   \<and> [[''Tomb of Annihilation''], [''Poetry.''], [''Fiction.'']] ! 2 \<noteq> ([] :: string list)"
  by code_simp

lemma splitQuery_panics_iff:
  "(\<exists>p. splitQuery q = Inl p) \<longleftrightarrow> (length q < 3 \<or> \<not> pipe_in_range q)"
  by (auto simp: splitQuery_def pipe_in_range_def Let_def)

text \<open>
  Claim C10. \<^verbatim>\<open>Filter\<close> checks no query. When every query has at least three
  characters and, if it has a \<^verbatim>\<open>|\<close>, at least four characters from its first
  \<^verbatim>\<open>|\<close> on, the call returns a result. A query of fewer than three characters
  makes the call panic on every record (\<^verbatim>\<open>q[:3]\<close>), and a query whose first
  \<^verbatim>\<open>|\<close> is followed by fewer than three characters makes it panic on every record
  that has a data field (\<^verbatim>\<open>q[ind+1]\<close>, \<^verbatim>\<open>q[ind+2]\<close>, \<^verbatim>\<open>q[ind+4:]\<close> are evaluated
  in the data field case). \<^verbatim>\<open>splitQuery\<close> panics exactly on the queries of one of
  the two kinds.
\<close>

theorem Filter_unchecked_query_shape:
  "((\<forall>q \<in> set qs. 3 \<le> length q \<and> pipe_in_range q) \<longrightarrow> (\<exists>res. Record_Filter r qs = Inr res))
   \<and> ((\<exists>q \<in> set qs. length q < 3) \<longrightarrow> (\<exists>p. Record_Filter r qs = Inl p))
   \<and> ((\<exists>q \<in> set qs. \<not> pipe_in_range q) \<and> (\<exists>d. IsDataField d \<in> set (Fields r))
        \<longrightarrow> (\<exists>p. Record_Filter r qs = Inl p))
   \<and> ((\<exists>p. splitQuery q = Inl p) \<longleftrightarrow> (length q < 3 \<or> \<not> pipe_in_range q))"
proof (intro conjI impI)
  assume "\<forall>q \<in> set qs. 3 \<le> length q \<and> pipe_in_range q"
  then show "\<exists>res. Record_Filter r qs = Inr res"
    unfolding Record_Filter_def by (rule Filter_queries_ok)
next
  assume "\<exists>q \<in> set qs. length q < 3"
  then show "\<exists>p. Record_Filter r qs = Inl p"
    unfolding Record_Filter_def by (auto intro: Filter_queries_short)
next
  assume "(\<exists>q \<in> set qs. \<not> pipe_in_range q) \<and> (\<exists>d. IsDataField d \<in> set (Fields r))"
  then show "\<exists>p. Record_Filter r qs = Inl p"
    unfolding Record_Filter_def by (auto intro: Filter_queries_pipe_panics)
next
  show "(\<exists>p. splitQuery q = Inl p) \<longleftrightarrow> (length q < 3 \<or> \<not> pipe_in_range q)"
    by (rule splitQuery_panics_iff)
qed

theorem Filter_unchecked_query_shape_witness:
  "Record_Filter example_record [''65''] = Inl SliceBoundsOutOfRange
   \<and> Record_Filter example_record [''650|0''] = Inl IndexOutOfRange
   \<and> Record_Filter example_record [''650|*0|x''] = Inr [[''Poetry.'']]
   \<and> splitQuery ''65'' = Inl SliceBoundsOutOfRange
   \<and> splitQuery ''650|0'' = Inl IndexOutOfRange
   \<and> splitQuery ''650|*0|x'' = Inr (''650'', CHR ''*'', CHR ''0'', ''x'')"
proof -
  have short: "\<exists>q \<in> set [''65'']. length q < 3" by simp
  have pipe: "\<exists>q \<in> set [''650|0'']. \<not> pipe_in_range q"
    by (simp add: pipe_in_range_def)
  have df: "\<exists>d. IsDataField d \<in> set (Fields example_record)"
    by (auto simp: example_record_def example_fields_def)
  have good: "\<forall>q \<in> set [''650|*0|x'']. 3 \<le> length q \<and> pipe_in_range q"
    by (simp add: pipe_in_range_def)
  have e1: "Record_Filter example_record [''65''] = Inl SliceBoundsOutOfRange" by code_simp
  have e2: "Record_Filter example_record [''650|0''] = Inl IndexOutOfRange" by code_simp
  have e3: "Record_Filter example_record [''650|*0|x''] = Inr [[''Poetry.'']]" by code_simp
  have e4: "splitQuery ''65'' = Inl SliceBoundsOutOfRange" by code_simp
  have e5: "splitQuery ''650|0'' = Inl IndexOutOfRange" by code_simp
  have e6: "splitQuery ''650|*0|x'' = Inr (''650'', CHR ''*'', CHR ''0'', ''x'')" by code_simp
  from Filter_unchecked_query_shape [of "[''65'']" example_record "''65''"] short
  have 1: "\<exists>p. Record_Filter example_record [''65''] = Inl p" by blast
  from Filter_unchecked_query_shape [of "[''650|0'']" example_record "''650|0''"] pipe df
  have 2: "\<exists>p. Record_Filter example_record [''650|0''] = Inl p" by blast
  from Filter_unchecked_query_shape [of "[''650|*0|x'']" example_record "''650|*0|x''"] good
  have 3: "\<exists>res. Record_Filter example_record [''650|*0|x''] = Inr res" by blast
  from 1 2 3 e1 e2 e3 e4 e5 e6 show ?thesis by blast
qed

section \<open>Properties of the framer\<close>

lemma IndexByte_ge: "- 1 \<le> IndexByte bs c"
  by (induction bs) (auto simp: Let_def)

lemma IndexByte_absent: "IndexByte bs c < 0 \<longleftrightarrow> c \<notin> set bs"
  using IndexByte_ge [of _ c] by (induction bs) (auto simp: Let_def)

lemma IndexByte_found:
  "0 \<le> IndexByte bs c \<Longrightarrow>
     bs = take (nat (IndexByte bs c)) bs @ c # drop (nat (IndexByte bs c + 1)) bs
     \<and> c \<notin> set (take (nat (IndexByte bs c)) bs)"
proof (induction bs)
  case Nil
  then show ?case by simp
next
  case (Cons b bs)
  show ?case
  proof (cases "b = c")
    case True
    then show ?thesis by simp
  next
    case False
    with Cons.prems have i: "0 \<le> IndexByte bs c"
      by (auto simp: Let_def split: if_splits)
    then have e: "IndexByte (b # bs) c = IndexByte bs c + 1"
      using False by (simp add: Let_def)
    have n: "nat (IndexByte bs c + 1) = Suc (nat (IndexByte bs c))"
      "nat (2 + IndexByte bs c) = Suc (Suc (nat (IndexByte bs c)))" using i by simp_all
    from Cons.IH [OF i] False show ?thesis
      unfolding e by (simp add: n)
  qed
qed

lemma Split_nonempty: "Split s c \<noteq> []"
  by (cases s) (auto split: list.splits)

lemma Split_absent: "c \<notin> set xs \<Longrightarrow> Split xs c = [xs]"
  by (induction xs) auto

lemma Split_first: "c \<notin> set xs \<Longrightarrow> Split (xs @ c # ys) c = xs # Split ys c"
  by (induction xs) auto

lemma Split_no_terminator: "t \<in> set (Split s c) \<Longrightarrow> c \<notin> set t"
  by (induction s arbitrary: t) (auto split: if_splits list.splits)

lemma spec_frames_absent: "rt \<notin> set xs \<Longrightarrow> spec_frames xs = (if xs = [] then [] else [xs])"
  by (simp add: spec_frames_def Split_absent)

lemma spec_frames_first: "rt \<notin> set xs \<Longrightarrow> spec_frames (xs @ rt # ys) = xs # spec_frames ys"
  using Split_nonempty [of ys rt] by (simp add: spec_frames_def Split_first Let_def)

lemma Scan_tokens_at_EOF: "Scan_tokens buf True reads = (if buf = [] then [] else [buf])"
  by (simp add: Scan_tokens.simps [of buf True reads] Scan_tokens.simps [of "[]" True reads]
        splitFunc_def)

lemma spec_frames_no_terminator: "t \<in> set (spec_frames s) \<Longrightarrow> rt \<notin> set t"
  by (auto simp: spec_frames_def Let_def dest: Split_no_terminator in_set_butlastD
           split: if_splits)

text \<open>
  When no call of \<^verbatim>\<open>Read\<close> returns bytes together with an error, so that the end
  of the stream is reported by a call that returns nothing else, the tokens are the
  framing of the specification.
\<close>

lemma Scan_tokens_frames:
  "\<not> err \<Longrightarrow> \<forall>r \<in> set reads. \<not> snd r \<Longrightarrow>
     Scan_tokens buf err reads = spec_frames (buf @ concat (map fst reads))"
proof (induction buf err reads rule: Scan_tokens.induct)
  case (1 buf err reads)
  from "1.prems" have err: "err = False" by simp
  show ?case
  proof (cases "buf \<noteq> [] \<and> 0 \<le> IndexByte buf rt")
    case True
    let ?i = "IndexByte buf rt"
    let ?tok = "take (nat ?i) buf"
    from True have sp: "splitFunc buf False = (?i + 1, Some ?tok, None)"
      by (simp add: splitFunc_def Let_def)
    from True sp err
    have c: "(?i + 1, Some ?tok, None)
               = (if buf \<noteq> [] \<or> err then splitFunc buf err else (0, None, None))"
      by simp
    from IndexByte_found [of buf rt] True
    have b: "buf = ?tok @ rt # drop (nat (?i + 1)) buf"
      and nt: "rt \<notin> set ?tok" by simp_all
    have "Scan_tokens buf False reads = ?tok # Scan_tokens (drop (nat (?i + 1)) buf) False reads"
      using True sp by (simp add: Scan_tokens.simps [of buf False reads])
    also have "Scan_tokens (drop (nat (?i + 1)) buf) False reads
           = spec_frames (drop (nat (?i + 1)) buf @ concat (map fst reads))"
      using "1.IH"(3) [OF c refl refl "1.prems"] err by simp
    also have "?tok # spec_frames (drop (nat (?i + 1)) buf @ concat (map fst reads))
           = spec_frames ((?tok @ rt # drop (nat (?i + 1)) buf) @ concat (map fst reads))"
      using spec_frames_first [OF nt] by simp
    also have "\<dots> = spec_frames (buf @ concat (map fst reads))"
      using b by simp
    finally show ?thesis using err by simp
  next
    case False
    then have sp: "buf \<noteq> [] \<Longrightarrow> splitFunc buf False = (0, None, None)"
      by (auto simp: splitFunc_def Let_def)
    with err
    have c: "(0, None, None)
               = (if buf \<noteq> [] \<or> err then splitFunc buf err else (0, None, None))"
      by simp
    from False have nt: "rt \<notin> set buf"
      using IndexByte_absent [of buf rt] by (cases buf) auto
    show ?thesis
    proof (cases reads)
      case Nil
      have "Scan_tokens buf False [] = Scan_tokens buf True []"
        using sp by (cases "buf = []") (simp_all add: Scan_tokens.simps [of buf False "[]"]
              Scan_tokens.simps [of "[]" False "[]"])
      then show ?thesis using Nil nt err by (simp add: Scan_tokens_at_EOF spec_frames_absent)
    next
      case (Cons r rest)
      obtain chunk e where r: "r = (chunk, e)" by (cases r)
      with Cons "1.prems" have e: "e = False" by simp
      have "Scan_tokens buf False ((chunk, e) # rest) = Scan_tokens (buf @ chunk) e rest"
        using sp
        by (cases "buf = []")
           (simp_all add: Scan_tokens.simps [of buf False "(chunk, e) # rest"]
              Scan_tokens.simps [of "[]" False "(chunk, e) # rest"])
      also have "\<dots> = spec_frames ((buf @ chunk) @ concat (map fst rest))"
        using "1.IH"(2) [OF c refl refl "1.prems"(1) Cons r [symmetric]] "1.prems" Cons e
        by simp
      finally show ?thesis using Cons r err by simp
    qed
  qed
qed

text \<open>
  Claim C8 fails on the code. \<^verbatim>\<open>splitFunc\<close> returns all of \<open>data\<close> as one token
  when \<^verbatim>\<open>atEOF\<close> is set, before it looks for a record terminator. The scanner sets
  \<^verbatim>\<open>atEOF\<close> as soon as a \<^verbatim>\<open>Read\<close> has returned an error, also when that call
  returned bytes: for the reader that returns the two records together with
  \<^verbatim>\<open>io.EOF\<close> the framer yields one buffer that holds both records and the
  terminator between them. The reader that reports the end by a call of its own
  gives the two buffers \<open>A\<close> and \<open>B\<close>.
\<close>

theorem framer_merges_records_read_with_EOF:
  "splitFunc two_records True = (3, Some two_records, None)
   \<and> Scan_tokens [] False reads_with_EOF = [two_records]
   \<and> rt \<in> set two_records
   \<and> spec_frames two_records = [''A'', ''B'']
   \<and> Scan_tokens [] False reads_then_EOF = [''A'', ''B'']"
  by code_simp


section \<open>The raw buffer of a record\<close>

lemma scanDirs_Data:
  "scanDirs data dirs rec = Inr (rec', err) \<Longrightarrow> Data rec' = Data rec"
proof (induction data dirs rec rule: scanDirs.induct)
  case (1 data dirs rec)
  show ?case
  proof (cases "length dirs \<ge> 12")
    case False
    with "1.prems" show ?thesis by (simp add: scanDirs.simps [of data dirs rec])
  next
    case True
    show ?thesis
    proof (cases "dirEntry data dirs")
      case (Inl p)
      with True "1.prems" show ?thesis by (simp add: scanDirs.simps [of data dirs rec])
    next
      case (Inr x)
      show ?thesis
      proof (cases x)
        case (Inl msg)
        with Inr True "1.prems" show ?thesis
          by (simp add: scanDirs.simps [of data dirs rec])
      next
        case (Inr f)
        with \<open>dirEntry data dirs = Inr x\<close> have e: "dirEntry data dirs = Inr (Inr f)"
          by simp
        from e True "1.prems"(1)
        have "scanDirs data (drop 12 dirs) (rec\<lparr>Fields := Fields rec @ [f]\<rparr>)
                = Inr (rec', err)"
          by (simp add: scanDirs.simps [of data dirs rec])
        from this "1.IH" [OF True e] show ?thesis by simp
      qed
    qed
  qed
qed

lemma scanIntoRecord_Data:
  assumes "scanIntoRecord bytes = Inr (rec, err)"
  shows "Data rec = bytes"
  using assms
  by (auto simp: scanIntoRecord_def Let_def split: if_splits option.splits
           dest!: scanDirs_Data)

lemma load_append_nil:
  "load (s @ [bs]) \<lparr>sl_array = length s, sl_off = 0, sl_len = length bs\<rparr> = bs"
  by (simp add: load_def)

lemma load_append_nil_overwrite:
  "a < length s \<Longrightarrow>
   load (overwrite (s @ [bs]) a bs') \<lparr>sl_array = length s, sl_off = 0, sl_len = length bs\<rparr> = bs"
  by (simp add: load_def overwrite_def nth_list_update nth_append)

text \<open>
  Claim C9. Whenever \<^verbatim>\<open>scanIntoRecord\<close> returns, with or without an error, the
  \<^verbatim>\<open>Data\<close> of the record is the buffer it was given, byte for byte. In the store,
  \<^verbatim>\<open>Data\<close> is a slice of an array allocated by the call, distinct from the array of
  the token and from every array that existed before: it holds the bytes of the
  token, and it still holds them after any later write to any of those arrays, the
  scanner's buffer among them. The accessors and \<^verbatim>\<open>Filter\<close> take the record by value
  and have no access to the store.
\<close>

theorem Data_is_independent_copy:
  "(\<forall>rec err. scanIntoRecord bytes = Inr (rec, err) \<longrightarrow> Data rec = bytes)
   \<and> (\<forall>rec err d s'. Value_in_store s tok = Inr ((rec, err), d, s') \<and> sl_array tok < length s
        \<longrightarrow> Data rec = load s tok \<and> load s' d = load s tok \<and> sl_array d \<noteq> sl_array tok
            \<and> (\<forall>a bs. a < length s \<longrightarrow> load (overwrite s' a bs) d = load s tok))"
proof (intro conjI allI impI)
  fix rec err assume "scanIntoRecord bytes = Inr (rec, err)"
  then show "Data rec = bytes" by (rule scanIntoRecord_Data)
next
  fix rec err d s'
  assume a: "Value_in_store s tok = Inr ((rec, err), d, s') \<and> sl_array tok < length s"
  then have r: "scanIntoRecord (load s tok) = Inr (rec, err)"
    and d: "d = \<lparr>sl_array = length s, sl_off = 0, sl_len = length (load s tok)\<rparr>"
    and s': "s' = s @ [load s tok]"
    by (auto simp: Value_in_store_def append_nil_def split: sum.splits)
  from r show "Data rec = load s tok" by (rule scanIntoRecord_Data)
  show "load s' d = load s tok" unfolding d s' by (rule load_append_nil)
  from a d show "sl_array d \<noteq> sl_array tok" by simp
  fix a' bs assume "a' < length s"
  then show "load (overwrite s' a' bs) d = load s tok"
    unfolding d s' by (rule load_append_nil_overwrite)
qed

theorem Data_is_independent_copy_witness:
  "sl_array scanner_token < length scanner_store
   \<and> load scanner_store scanner_token = example_buffer
   \<and> Value_in_store scanner_store scanner_token
       = Inr ((example_record, None), \<lparr>sl_array = 1, sl_off = 0, sl_len = 146\<rparr>,
              scanner_store @ [example_buffer])
   \<and> Data example_record = example_buffer
   \<and> load (overwrite (scanner_store @ [example_buffer]) 0 ''00025nam a22'')
        \<lparr>sl_array = 1, sl_off = 0, sl_len = 146\<rparr> = example_buffer"
proof -
  have v: "Value_in_store scanner_store scanner_token
       = Inr ((example_record, None), \<lparr>sl_array = 1, sl_off = 0, sl_len = 146\<rparr>,
              scanner_store @ [example_buffer])"
    by code_simp
  have l: "load scanner_store scanner_token = example_buffer"
    by code_simp
  have n: "sl_array scanner_token < length scanner_store" "0 < length scanner_store"
    by (simp_all add: scanner_token_def scanner_store_def)
  from Data_is_independent_copy [of example_buffer scanner_store scanner_token] v n l
  show ?thesis by auto
qed

end
